theory Spec2Isabelle
  imports Complex_Main "HOL-Library.Product_Lexorder" "HOL-Library.Sublist"
begin

section \<open>Heading extraction from PDF page data (finale\_final.py)\<close>

text \<open>
  A shallow embedding of the class \<open>PDFHeadingExtractor\<close>.  The names are the ones of
  the Python source with the leading underscore of private methods dropped.

  Conventions of the embedding:
  \<^item> a Python \<open>str\<close> is a \<open>string\<close> whose characters are read as the code points
    U+0000 to U+00FF (Latin-1); the character classes below are Python's classes on that
    range;
  \<^item> a Python \<open>float\<close> (font size, position) is a \<open>real\<close>: products with the
    constants 2.0, 1.6, 1.3, 1.1, 1.05, 0.8, 0.5 and the comparisons are the exact ones;
  \<^item> the instance fields \<open>document_title\<close>, \<open>title_size\<close>, \<open>seen_headings\<close> and
    \<open>nlp\<close> are a record that is passed to each method and returned where the method
    updates it;
  \<^item> the data read from PyMuPDF (pages, blocks, lines, spans) and the spaCy tagger are
    inputs of the model.
\<close>

subsection \<open>Input data: documents as PyMuPDF presents them\<close>

record span =
  span_text :: string
  span_size :: real
  span_flags :: int
  span_font :: string
  span_origin :: "real \<times> real"

record line =
  spans :: "span list"

text \<open>An image block has no \<open>"lines"\<close> entry.\<close>

record block =
  lines :: "line list option"

record pdf_page =
  page_text :: string
  blocks :: "block list"
  rect_height :: real

record document =
  doc_name :: string
  pages :: "pdf_page list"

datatype error = PageNotInDocument | IndexError

definition load_page :: "document \<Rightarrow> nat \<Rightarrow> error + pdf_page" where
  "load_page doc n = (if n < length (pages doc) then Inr (pages doc ! n) else Inl PageNotInDocument)"

subsection \<open>Python string operations\<close>

text \<open>Character classes of Python 3 on the code points below 256.\<close>

definition isspace :: "char \<Rightarrow> bool" where
  "isspace c = (let n = (of_char c :: nat) in
     (9 \<le> n \<and> n \<le> 13) \<or> (28 \<le> n \<and> n \<le> 32) \<or> n = 133 \<or> n = 160)"

definition isupper_char :: "char \<Rightarrow> bool" where
  "isupper_char c = (let n = (of_char c :: nat) in
     (65 \<le> n \<and> n \<le> 90) \<or> (192 \<le> n \<and> n \<le> 214) \<or> (216 \<le> n \<and> n \<le> 222))"

definition islower_char :: "char \<Rightarrow> bool" where
  "islower_char c = (let n = (of_char c :: nat) in
     (97 \<le> n \<and> n \<le> 122) \<or> n = 170 \<or> n = 181 \<or> n = 186 \<or>
     (223 \<le> n \<and> n \<le> 246) \<or> (248 \<le> n \<and> n \<le> 255))"

definition isdecimal_char :: "char \<Rightarrow> bool" where
  "isdecimal_char c = (let n = (of_char c :: nat) in 48 \<le> n \<and> n \<le> 57)"

definition isalnum_char :: "char \<Rightarrow> bool" where
  "isalnum_char c = (let n = (of_char c :: nat) in
     isupper_char c \<or> islower_char c \<or> isdecimal_char c \<or>
     n = 178 \<or> n = 179 \<or> n = 185 \<or> (188 \<le> n \<and> n \<le> 190))"

definition lower_char :: "char \<Rightarrow> char" where
  "lower_char c = (if isupper_char c then char_of ((of_char c :: nat) + 32) else c)"

definition lower :: "string \<Rightarrow> string" where
  "lower s = map lower_char s"

definition strip :: "string \<Rightarrow> string" where
  "strip s = rev (dropWhile isspace (rev (dropWhile isspace s)))"

text \<open>\<open>word.strip('.,!?;:')\<close>\<close>

definition strip_chars :: "string \<Rightarrow> string \<Rightarrow> string" where
  "strip_chars cs s =
     rev (dropWhile (\<lambda>c. c \<in> set cs) (rev (dropWhile (\<lambda>c. c \<in> set cs) s)))"

text \<open>\<open>s.split()\<close>: the maximal runs of non-whitespace characters.\<close>

fun split :: "string \<Rightarrow> string list" where
  "split [] = []"
| "split (c # cs) =
     (if isspace c then split cs
      else (case cs of
              [] \<Rightarrow> [[c]]
            | d # _ \<Rightarrow> if isspace d then [c] # split cs
                       else (case split cs of [] \<Rightarrow> [[c]] | w # ws \<Rightarrow> (c # w) # ws)))"

text \<open>\<open>s.split(sep)\<close> for a separator of one character.\<close>

fun split_on :: "char \<Rightarrow> string \<Rightarrow> string list" where
  "split_on sep [] = [[]]"
| "split_on sep (c # cs) =
     (if c = sep then [] # split_on sep cs
      else (case split_on sep cs of [] \<Rightarrow> [[c]] | w # ws \<Rightarrow> (c # w) # ws))"

definition startswith :: "string \<Rightarrow> string \<Rightarrow> bool" where
  "startswith s p = (take (length p) s = p)"

definition endswith :: "string \<Rightarrow> string \<Rightarrow> bool" where
  "endswith s p = (length p \<le> length s \<and> drop (length s - length p) s = p)"

text \<open>\<open>a in b\<close> for strings.\<close>

fun contains :: "string \<Rightarrow> string \<Rightarrow> bool" where
  "contains [] a = (a = [])"
| "contains (c # cs) a = (startswith (c # cs) a \<or> contains cs a)"

text \<open>\<open>s.isupper()\<close> and \<open>s.istitle()\<close>, as CPython computes them.\<close>

definition isupper :: "string \<Rightarrow> bool" where
  "isupper s = ((\<forall>c \<in> set s. \<not> islower_char c) \<and> (\<exists>c \<in> set s. isupper_char c))"

fun istitle_from :: "bool \<Rightarrow> bool \<Rightarrow> string \<Rightarrow> bool" where
  "istitle_from cased previous_is_cased [] = cased"
| "istitle_from cased previous_is_cased (c # cs) =
     (if isupper_char c then
        (if previous_is_cased then False else istitle_from True True cs)
      else if islower_char c then
        (if \<not> previous_is_cased then False else istitle_from True True cs)
      else istitle_from cased False cs)"

definition istitle :: "string \<Rightarrow> bool" where
  "istitle s = istitle_from False False s"

subsection \<open>Regular expressions (\<open>re.match\<close>)\<close>

datatype cclass =
    Lit char
  | Digit
  | Space
  | AnyChar
  | Range char char
  | OneOf "cclass list"
  | NoneOf "cclass list"

fun cmatch :: "cclass \<Rightarrow> char \<Rightarrow> bool" where
  "cmatch (Lit d) c = (c = d)"
| "cmatch Digit c = isdecimal_char c"
| "cmatch Space c = isspace c"
| "cmatch AnyChar c = (c \<noteq> CHR 0x0A)"
| "cmatch (Range lo hi) c = ((of_char lo :: nat) \<le> of_char c \<and> (of_char c :: nat) \<le> of_char hi)"
| "cmatch (OneOf cls) c = (\<exists>cl \<in> set cls. cmatch cl c)"
| "cmatch (NoneOf cls) c = (\<not> (\<exists>cl \<in> set cls. cmatch cl c))"

datatype regex =
    Never
  | Empty
  | Atom cclass
  | Seq regex regex
  | Alt regex regex
  | Star regex

definition Str :: "string \<Rightarrow> regex" where
  "Str s = foldr (\<lambda>c r. Seq (Atom (Lit c)) r) s Empty"

definition Plus :: "regex \<Rightarrow> regex" where
  "Plus r = Seq r (Star r)"

definition Opt :: "regex \<Rightarrow> regex" where
  "Opt r = Alt r Empty"

definition Seqs :: "regex list \<Rightarrow> regex" where
  "Seqs rs = foldr Seq rs Empty"

definition Alts :: "regex list \<Rightarrow> regex" where
  "Alts rs = foldr Alt rs Never"

fun nullable :: "regex \<Rightarrow> bool" where
  "nullable Never = False"
| "nullable Empty = True"
| "nullable (Atom a) = False"
| "nullable (Seq r s) = (nullable r \<and> nullable s)"
| "nullable (Alt r s) = (nullable r \<or> nullable s)"
| "nullable (Star r) = True"

text \<open>The derivative of a pattern by a character, with the dead branches pruned.\<close>

definition seq :: "regex \<Rightarrow> regex \<Rightarrow> regex" where
  "seq r s = (if r = Never \<or> s = Never then Never else if r = Empty then s else Seq r s)"

definition alt :: "regex \<Rightarrow> regex \<Rightarrow> regex" where
  "alt r s = (if r = Never then s else if s = Never then r else Alt r s)"

fun deriv :: "char \<Rightarrow> regex \<Rightarrow> regex" where
  "deriv c Never = Never"
| "deriv c Empty = Never"
| "deriv c (Atom a) = (if cmatch a c then Empty else Never)"
| "deriv c (Seq r s) =
     (if nullable r then alt (seq (deriv c r) s) (deriv c s) else seq (deriv c r) s)"
| "deriv c (Alt r s) = alt (deriv c r) (deriv c s)"
| "deriv c (Star r) = seq (deriv c r) (Star r)"

text \<open>Some prefix of the string matches: \<open>re.match\<close> with a pattern that has no \<open>$\<close>.\<close>

fun match_prefix :: "regex \<Rightarrow> string \<Rightarrow> bool" where
  "match_prefix r [] = nullable r"
| "match_prefix r (c # cs) = (nullable r \<or> match_prefix (deriv c r) cs)"

text \<open>The whole string matches.\<close>

fun match_all :: "regex \<Rightarrow> string \<Rightarrow> bool" where
  "match_all r [] = nullable r"
| "match_all r (c # cs) = match_all (deriv c r) cs"

text \<open>
  A pattern is a regular expression, followed by \<open>$\<close> or not.  \<open>$\<close> matches at the end
  of the string and before a newline that ends the string.  The leading \<open>^\<close> of the
  source's patterns is what \<open>re.match\<close> does anyway.
\<close>

datatype pattern = Pat regex | PatEnd regex

fun re_match :: "pattern \<Rightarrow> string \<Rightarrow> bool" where
  "re_match (Pat r) s = match_prefix r s"
| "re_match (PatEnd r) s = match_all (Seq r (Opt (Atom (Lit (CHR 0x0A))))) s"

text \<open>\<open>r{m}\<close> and \<open>r{m,n}\<close>\<close>

definition Times :: "nat \<Rightarrow> regex \<Rightarrow> regex" where
  "Times m r = Seqs (replicate m r)"

definition Rep :: "nat \<Rightarrow> nat \<Rightarrow> regex \<Rightarrow> regex" where
  "Rep m n r = Seq (Times m r) (Seqs (replicate (n - m) (Opt r)))"

definition letter :: cclass where
  "letter = OneOf [Range (CHR ''a'') (CHR ''z''), Range (CHR ''A'') (CHR ''Z'')]"

text \<open>\<open>re.sub(r'\s+', ' ', s)\<close>: every maximal run of whitespace becomes one space.\<close>

fun collapse_ws :: "string \<Rightarrow> string" where
  "collapse_ws [] = []"
| "collapse_ws (c # cs) =
     (if isspace c then
        (case cs of
           [] \<Rightarrow> [CHR 0x20]
         | d # _ \<Rightarrow> if isspace d then collapse_ws cs else CHR 0x20 # collapse_ws cs)
      else c # collapse_ws cs)"

text \<open>\<open>os.path.basename(p)\<close> and \<open>s.replace(old, "")\<close> (for a non-empty \<open>old\<close>).\<close>

definition basename :: "string \<Rightarrow> string" where
  "basename p = rev (takeWhile (\<lambda>c. c \<noteq> CHR ''/'') (rev p))"

function replace_by_empty :: "string \<Rightarrow> string \<Rightarrow> string" where
  "replace_by_empty old s =
     (case s of
        [] \<Rightarrow> []
      | c # cs \<Rightarrow> if old \<noteq> [] \<and> startswith s old
                 then replace_by_empty old (drop (length old) s)
                 else c # replace_by_empty old cs)"
  by pat_completeness auto
termination
  by (relation "measure (\<lambda>(old, s). length s)") auto

subsection \<open>Configuration (\<open>__init__\<close>)\<close>

definition min_heading_length :: nat where "min_heading_length = 5"
definition max_heading_length :: nat where "max_heading_length = 200"
definition header_footer_margin :: real where "header_footer_margin = 50"

definition exclude_patterns :: "pattern list" where
  "exclude_patterns =
     [ PatEnd (Seqs [Str ''page '', Plus (Atom Digit)]),
       PatEnd (Plus (Atom Digit)),
       PatEnd (Seqs [Plus (Atom letter), Plus (Atom Space), Rep 1 2 (Atom Digit), Str '','',
                     Plus (Atom Space), Times 4 (Atom Digit)]),
       Pat (Alts [Str [CHR 0xA9], Str [CHR 0xA9], Str ''All rights reserved'']),
       Pat (Str ''Confidential''),
       Pat (Str ''Draft''),
       PatEnd (Star (Atom Space)) ]"

text \<open>
  The instance fields.  \<open>nlp\<close> is \<open>None\<close> when the spaCy model could not be loaded;
  otherwise it maps a text to the part-of-speech tags of its tokens, or to \<open>None\<close> when
  the call raises.
\<close>

record extractor =
  nlp :: "(string \<Rightarrow> string list option) option"
  title_size :: "real option"
  document_title :: "string option"
  seen_headings :: "string set"

definition init :: "(string \<Rightarrow> string list option) option \<Rightarrow> extractor" where
  "init model = \<lparr> nlp = model, title_size = None, document_title = None, seen_headings = {} \<rparr>"

subsection \<open>Font statistics\<close>

record font_analysis =
  base_size :: real
  h1_threshold :: real
  h2_threshold :: real
  h3_threshold :: real
  h4_threshold :: real
  all_sizes :: "real list"
  size_distribution :: "(real \<times> nat) list"

definition get_default_thresholds :: font_analysis where
  "get_default_thresholds =
     \<lparr> base_size = 12, h1_threshold = 18, h2_threshold = 16, h3_threshold = 14,
       h4_threshold = 13, all_sizes = [18, 16, 14, 13, 12], size_distribution = [] \<rparr>"

text \<open>\<open>list(range(0, min(total_pages, 10)))\<close>, extended by the middle and the last page.\<close>

definition sample_pages :: "nat \<Rightarrow> nat list" where
  "sample_pages total_pages =
     [0 ..< min total_pages 10] @
     (if total_pages > 10 then [total_pages div 2, total_pages - 1] else [])"

text \<open>The three inner loops over a page: the sizes appended to \<open>font_sizes\<close>.\<close>

definition span_sizes :: "pdf_page \<Rightarrow> span \<Rightarrow> real list" where
  "span_sizes pg sp =
     (if snd (span_origin sp) < header_footer_margin \<or>
         snd (span_origin sp) > rect_height pg - header_footer_margin
      then []
      else if length (strip (span_text sp)) \<ge> 3 then [span_size sp] else [])"

definition block_sizes :: "pdf_page \<Rightarrow> block \<Rightarrow> real list" where
  "block_sizes pg b =
     (case lines b of
        None \<Rightarrow> []
      | Some ls \<Rightarrow> concat (map (\<lambda>l. concat (map (span_sizes pg) (spans l))) ls))"

definition page_sizes :: "pdf_page \<Rightarrow> real list" where
  "page_sizes pg = concat (map (block_sizes pg) (blocks pg))"

fun collect_font_sizes :: "document \<Rightarrow> nat list \<Rightarrow> real list \<Rightarrow> error + real list" where
  "collect_font_sizes doc [] font_sizes = Inr font_sizes"
| "collect_font_sizes doc (page_num # rest) font_sizes =
     (case load_page doc page_num of
        Inl e \<Rightarrow> Inl e
      | Inr pg \<Rightarrow> collect_font_sizes doc rest (font_sizes @ page_sizes pg))"

text \<open>
  \<open>Counter(font_sizes)\<close>: the sizes in the order of their first occurrence, each with its
  count.  \<open>most_common(1)[0]\<close> is the first entry, in that order, whose count is maximal.
\<close>

fun counter_add :: "real \<Rightarrow> (real \<times> nat) list \<Rightarrow> (real \<times> nat) list" where
  "counter_add x [] = [(x, 1)]"
| "counter_add x ((k, n) # kvs) =
     (if k = x then (k, Suc n) # kvs else (k, n) # counter_add x kvs)"

definition Counter :: "real list \<Rightarrow> (real \<times> nat) list" where
  "Counter xs = foldl (\<lambda>c x. counter_add x c) [] xs"

fun first_max :: "(real \<times> nat) \<Rightarrow> (real \<times> nat) list \<Rightarrow> (real \<times> nat)" where
  "first_max best [] = best"
| "first_max best (kv # kvs) = first_max (if snd kv > snd best then kv else best) kvs"

definition most_common1 :: "(real \<times> nat) list \<Rightarrow> (real \<times> nat) option" where
  "most_common1 c = (case c of [] \<Rightarrow> None | kv # kvs \<Rightarrow> Some (first_max kv kvs))"

text \<open>\<open>sorted(set(font_sizes), reverse=True)\<close>\<close>

definition unique_sizes_of :: "real list \<Rightarrow> real list" where
  "unique_sizes_of font_sizes = rev (sort (remdups font_sizes))"

definition thresholds_of :: "real list \<Rightarrow> real \<Rightarrow> font_analysis" where
  "thresholds_of font_sizes body_size =
     (let unique_sizes = unique_sizes_of font_sizes;
          h1 = body_size * 2.0;
          h2 = body_size * 1.6;
          h3 = body_size * 1.3;
          h4 = body_size * 1.1;
          adjust = (length unique_sizes \<ge> 4);
          h1 = (if adjust then max h1 (unique_sizes ! 0) else h1);
          h2 = (if adjust then max h2 (unique_sizes ! 1) else h2);
          h3 = (if adjust then max h3 (unique_sizes ! 2) else h3);
          h4 = (if adjust \<and> length unique_sizes \<ge> 4 then max h4 (unique_sizes ! 3) else h4)
      in \<lparr> base_size = body_size, h1_threshold = h1, h2_threshold = h2, h3_threshold = h3,
           h4_threshold = h4, all_sizes = unique_sizes,
           size_distribution = Counter font_sizes \<rparr>)"

definition analyze_document_fonts :: "document \<Rightarrow> error + font_analysis" where
  "analyze_document_fonts doc =
     (case collect_font_sizes doc (sample_pages (length (pages doc))) [] of
        Inl e \<Rightarrow> Inl e
      | Inr font_sizes \<Rightarrow>
          if font_sizes = [] then Inr get_default_thresholds
          else (case most_common1 (Counter font_sizes) of
                  None \<Rightarrow> Inl IndexError
                | Some (body_size, _) \<Rightarrow> Inr (thresholds_of font_sizes body_size)))"

subsection \<open>Title extraction\<close>

definition is_valid_title :: "string \<Rightarrow> bool" where
  "is_valid_title text =
     (if length text < 10 \<or> length text > 300 then False
      else let text_lower = lower text;
               invalid_starts = [''page '', ''copyright'', [CHR 0xA9], ''confidential'', ''draft'']
      in if \<exists>start \<in> set invalid_starts. startswith text_lower start then False
      else if re_match (Pat (Seqs [Str ''http'', Opt (Atom (Lit (CHR ''s''))), Str ''://''])) text_lower
        then False
      else if re_match (PatEnd (Plus (Atom Digit))) text \<or>
              re_match (PatEnd (Seqs [Rep 1 2 (Atom Digit), Str ''/'', Rep 1 2 (Atom Digit),
                                      Str ''/'', Times 4 (Atom Digit)])) text
        then False
      else True)"

text \<open>The loop over the spans of a line: the concatenated text and the largest size.\<close>

definition title_line :: "line \<Rightarrow> string \<times> real" where
  "title_line l =
     foldl (\<lambda>(line_text, line_size) sp. (line_text @ span_text sp, max line_size (span_size sp)))
       ([], 0) (spans l)"

definition title_line_size :: "string set \<Rightarrow> real \<Rightarrow> line \<Rightarrow> real" where
  "title_line_size title_words max_size l =
     (let (line_text, line_size) = title_line l;
          line_words = set (split (lower line_text));
          overlap = card (title_words \<inter> line_words)
      in if real overlap \<ge> min 3 (real (card title_words) * 0.6)
         then max max_size line_size else max_size)"

definition title_block_size :: "string set \<Rightarrow> real \<Rightarrow> block \<Rightarrow> real" where
  "title_block_size title_words max_size b =
     (case lines b of
        None \<Rightarrow> max_size
      | Some ls \<Rightarrow> foldl (title_line_size title_words) max_size ls)"

definition get_title_font_size :: "pdf_page \<Rightarrow> string \<Rightarrow> real option" where
  "get_title_font_size pg title_text =
     (let title_words = set (split (lower title_text));
          max_size = foldl (title_block_size title_words) 0 (blocks pg)
      in if max_size > 0 then Some max_size else None)"

text \<open>
  A value of type \<open>Optional[float]\<close> is false when it is \<open>None\<close> or zero, a string
  when it is \<open>None\<close> or empty.
\<close>

definition truthy_size :: "real option \<Rightarrow> bool" where
  "truthy_size x = (case x of None \<Rightarrow> False | Some v \<Rightarrow> v \<noteq> 0)"

definition truthy_str :: "string option \<Rightarrow> bool" where
  "truthy_str x = (case x of None \<Rightarrow> False | Some v \<Rightarrow> v \<noteq> [])"

definition extract_title :: "extractor \<Rightarrow> document \<Rightarrow> error + (string \<times> extractor)" where
  "extract_title self doc =
     (case load_page doc 0 of
        Inl e \<Rightarrow> Inl e
      | Inr first_page \<Rightarrow>
          let ls = filter (\<lambda>l. l \<noteq> []) (map strip (split_on (CHR 0x0A) (page_text first_page)))
          in case find (\<lambda>l. is_valid_title (strip l)) (take 15 ls) of
               Some l \<Rightarrow>
                 let title = strip (collapse_ws (strip l));
                     found_size = get_title_font_size first_page title
                 in Inr (title,
                         self\<lparr>title_size :=
                               (if truthy_size found_size then found_size else Some 16.0)\<rparr>)
             | None \<Rightarrow> Inr (replace_by_empty ''.pdf'' (basename (doc_name doc)), self))"

subsection \<open>Text screening\<close>

definition is_valid_heading_text :: "string \<Rightarrow> bool" where
  "is_valid_heading_text text0 =
     (let text = strip text0 in
      if length text < min_heading_length \<or> length text > max_heading_length then False
      else let text_lower = lower text in
      if \<exists>p \<in> set exclude_patterns. re_match p text_lower then False
      else if re_match (PatEnd (Plus (Atom Digit))) text then False
      else if re_match (PatEnd (Seqs [Star (Atom (NoneOf [letter])), Rep 1 2 (Atom letter),
                                      Star (Atom (NoneOf [letter]))])) text then False
      else if re_match (Pat (Alts [Seqs [Str ''http'', Opt (Atom (Lit (CHR ''s''))), Str ''://''],
                                   Str ''www.'',
                                   Seqs [Str ''@'', Star (Atom AnyChar), Str ''.'']])) text_lower
        then False
      else let alphanumeric_chars = length (filter isalnum_char text) in
      if real alphanumeric_chars < max 3 (real (length text) * 0.5) then False
      else let words = split text in
      if words = [] \<or> (\<forall>word \<in> set words. length (strip_chars ''.,!?;:'' word) \<le> 2) then False
      else True)"

subsection \<open>Classification of a line\<close>

text \<open>
  The dictionary of a heading.  \<open>classify_heading\<close> builds it with the keys \<open>level\<close>,
  \<open>text\<close> and \<open>page\<close>; the post-processor reads \<open>x.get('y_pos', 0)\<close>, so the key
  \<open>y_pos\<close> is optional.
\<close>

record heading =
  level :: string
  htext :: string
  page :: nat
  y_pos :: "real option"

definition text_similarity :: "string \<Rightarrow> string \<Rightarrow> real" where
  "text_similarity text1 text2 =
     (let words1 = set (split text1);
          words2 = set (split text2)
      in if words1 = {} \<or> words2 = {} then 0
         else let intersection = card (words1 \<inter> words2);
                  union = card (words1 \<union> words2)
              in if union > 0 then real intersection / real union else 0)"

definition is_title_duplicate :: "string \<Rightarrow> string \<Rightarrow> bool" where
  "is_title_duplicate doc_title text =
     (let text_clean = lower (strip text) in
      if text_clean = doc_title then True
      else if length doc_title > 10 \<and>
              (contains doc_title text_clean \<or>
               contains text_clean doc_title \<or>
               text_similarity text_clean doc_title > 0.7) then True
      else False)"

definition determine_heading_level :: "real \<Rightarrow> int \<Rightarrow> font_analysis \<Rightarrow> string option" where
  "determine_heading_level font_size flags font_analysis =
     (if font_size \<ge> h1_threshold font_analysis then Some ''H1''
      else if font_size \<ge> h2_threshold font_analysis then Some ''H2''
      else if font_size \<ge> h3_threshold font_analysis then Some ''H3''
      else if font_size \<ge> h4_threshold font_analysis then Some ''H4''
      else if and flags (2 ^ 4) \<noteq> 0 \<and> font_size \<ge> base_size font_analysis * 1.05 then Some ''H4''
      else None)"

definition section_patterns :: "pattern list" where
  "section_patterns =
     [ Pat (Alts [Str ''chapter'', Str ''section'', Str ''part'', Str ''appendix'',
                  Str ''introduction'', Str ''conclusion'', Str ''summary'', Str ''background'']),
       Pat (Seq (Plus (Atom Digit)) (Str ''.'')),
       Pat (Seqs [Atom (Range (CHR ''A'') (CHR ''Z'')), Star (Atom (NoneOf [Lit (CHR ''.'')])),
                  Str '':'']),
       Pat (Alts [Str ''phase'', Str ''timeline'', Str ''milestone'']),
       Pat (Seqs [Str ''for each '', Star (Atom AnyChar), Str '' it could mean'']) ]"

definition looks_like_section_title :: "string \<Rightarrow> bool" where
  "looks_like_section_title text =
     (let text_lower = strip (lower text)
      in \<exists>p \<in> set section_patterns. re_match p text_lower)"

definition is_heading_like_rule_based :: "string \<Rightarrow> bool" where
  "is_heading_like_rule_based text =
     (if looks_like_section_title text then True
      else if isupper text \<or> istitle text then True
      else if length (split text) \<le> 8 then True
      else if length (split text) > 15 then False
      else True)"

definition content_pos :: "string set" where
  "content_pos = {''NOUN'', ''PROPN'', ''ADJ'', ''NUM''}"

definition is_heading_like :: "extractor \<Rightarrow> string \<Rightarrow> bool" where
  "is_heading_like self text =
     (case nlp self of
        None \<Rightarrow> is_heading_like_rule_based text
      | Some tagger \<Rightarrow>
          if length (split text) > 15 then False
          else (case tagger text of
                  None \<Rightarrow> is_heading_like_rule_based text
                | Some doc \<Rightarrow>
                    if looks_like_section_title text then True
                    else if endswith (strip text) ''?'' then True
                    else if length doc \<le> 3 then True
                    else let content_count = length (filter (\<lambda>pos. pos \<in> content_pos) doc) in
                    if real content_count / real (length doc) \<ge> 0.4 then True
                    else if \<exists>pos \<in> set doc. pos \<in> {''PROPN'', ''NUM''} then True
                    else False))"

definition classify_heading ::
  "extractor \<Rightarrow> string \<Rightarrow> real \<Rightarrow> real option \<Rightarrow> nat \<Rightarrow> int \<Rightarrow> string \<Rightarrow> font_analysis \<Rightarrow>
   heading option \<times> extractor" where
  "classify_heading self text font_size y_position page_num flags font font_analysis =
     (if truthy_str (document_title self) \<and> is_title_duplicate (the (document_title self)) text
        then (None, self)
      else if truthy_size (title_size self) \<and> \<bar>font_size - the (title_size self)\<bar> < 0.1 \<and>
              page_num > 1 \<and> \<not> looks_like_section_title text
        then (None, self)
      else (case determine_heading_level font_size flags font_analysis of
              None \<Rightarrow> (None, self)
            | Some lvl \<Rightarrow>
                if \<not> is_heading_like self text then (None, self)
                else let text_key = lvl @ '':'' @ lower text in
                if text_key \<in> seen_headings self then (None, self)
                else (Some \<lparr> level = lvl, htext = text, page = page_num, y_pos = None \<rparr>,
                      self\<lparr>seen_headings := insert text_key (seen_headings self)\<rparr>)))"

subsection \<open>Scanning the pages\<close>

text \<open>
  The spans of a line are merged: the texts are concatenated, and the flags and the font
  are the ones of the first span of the largest size.  \<open>min_y\<close> starts as infinity,
  written \<open>None\<close>.
\<close>

definition combine_spans :: "span list \<Rightarrow> string \<times> real \<times> real option \<times> int \<times> string" where
  "combine_spans sps =
     foldl (\<lambda>(combined_text, max_size, min_y, flags, font) sp.
              let (max_size', flags', font') =
                    (if span_size sp > max_size then (span_size sp, span_flags sp, span_font sp)
                     else (max_size, flags, font));
                  y = snd (span_origin sp)
              in (combined_text @ span_text sp, max_size',
                  (case min_y of None \<Rightarrow> Some y | Some m \<Rightarrow> Some (min m y)), flags', font'))
       ([], 0, None, 0, []) sps"

definition process_line ::
  "nat \<Rightarrow> font_analysis \<Rightarrow> heading list \<times> extractor \<Rightarrow> line \<Rightarrow> heading list \<times> extractor" where
  "process_line page_num font_analysis st l =
     (let (headings, self) = st in
      if spans l = [] then (headings, self)
      else let (combined, max_size, min_y, flags, font) = combine_spans (spans l);
               combined_text = strip combined
      in if combined_text \<noteq> [] \<and> is_valid_heading_text combined_text
         then (case classify_heading self combined_text max_size min_y page_num flags font
                      font_analysis of
                 (Some heading, self') \<Rightarrow> (headings @ [heading], self')
               | (None, self') \<Rightarrow> (headings, self'))
         else (headings, self))"

definition process_block ::
  "nat \<Rightarrow> font_analysis \<Rightarrow> heading list \<times> extractor \<Rightarrow> block \<Rightarrow> heading list \<times> extractor" where
  "process_block page_num font_analysis st b =
     (case lines b of
        None \<Rightarrow> st
      | Some ls \<Rightarrow> foldl (process_line page_num font_analysis) st ls)"

definition extract_page_headings ::
  "extractor \<Rightarrow> pdf_page \<Rightarrow> nat \<Rightarrow> font_analysis \<Rightarrow> heading list \<times> extractor" where
  "extract_page_headings self pg page_num font_analysis =
     foldl (process_block page_num font_analysis) ([], self) (blocks pg)"

fun process_pages ::
  "document \<Rightarrow> font_analysis \<Rightarrow> nat list \<Rightarrow> heading list \<times> extractor \<Rightarrow>
   error + (heading list \<times> extractor)" where
  "process_pages doc font_analysis [] st = Inr st"
| "process_pages doc font_analysis (page_num # rest) st =
     (case load_page doc page_num of
        Inl e \<Rightarrow> Inl e
      | Inr pg \<Rightarrow>
          let (page_headings, self') =
                extract_page_headings (snd st) pg (page_num + 1) font_analysis
          in process_pages doc font_analysis rest (fst st @ page_headings, self'))"

subsection \<open>Post-processing of the outline\<close>

text \<open>
  \<open>seen_texts\<close> is a Python set.  It is kept as the list of its elements; the order in
  which \<open>list(seen_texts)\<close> presents them is not fixed by Python, so it is a parameter
  of the model: \<open>iteration_order\<close> maps the elements to the sequence that the loop sees.
\<close>

definition set_add :: "string \<Rightarrow> string list \<Rightarrow> string list" where
  "set_add k xs = (if k \<in> set xs then xs else xs @ [k])"

definition is_fragment_of :: "string \<Rightarrow> string \<Rightarrow> bool" where
  "is_fragment_of a b =
     (length a < length b \<and> contains b a \<and> real (length a) < real (length b) * 0.8)"

fun scan_seen ::
  "string \<Rightarrow> string list \<Rightarrow> heading list \<times> string list \<Rightarrow> bool \<times> heading list \<times> string list" where
  "scan_seen text_key [] (cleaned_outline, seen_texts) = (False, cleaned_outline, seen_texts)"
| "scan_seen text_key (seen_text # rest) (cleaned_outline, seen_texts) =
     (if is_fragment_of text_key seen_text then (True, cleaned_outline, seen_texts)
      else if is_fragment_of seen_text text_key
        then scan_seen text_key rest
               (filter (\<lambda>h. lower (strip (htext h)) \<noteq> seen_text) cleaned_outline,
                removeAll seen_text seen_texts)
      else scan_seen text_key rest (cleaned_outline, seen_texts))"

definition process_item ::
  "(string list \<Rightarrow> string list) \<Rightarrow> heading list \<times> string list \<Rightarrow> heading \<Rightarrow>
   heading list \<times> string list" where
  "process_item iteration_order st item =
     (let (cleaned_outline, seen_texts) = st;
          text = strip (htext item);
          text_key = lower text
      in if text_key \<in> set seen_texts then (cleaned_outline, seen_texts)
         else (case scan_seen text_key (iteration_order seen_texts) (cleaned_outline, seen_texts) of
                 (is_fragment, cleaned_outline', seen_texts') \<Rightarrow>
                   if \<not> is_fragment
                   then (cleaned_outline' @ [item], set_add text_key seen_texts')
                   else (cleaned_outline', seen_texts')))"

definition sort_key_of :: "heading \<Rightarrow> nat \<times> real" where
  "sort_key_of x = (page x, (case y_pos x of None \<Rightarrow> 0 | Some y \<Rightarrow> y))"

definition post_process_outline ::
  "(string list \<Rightarrow> string list) \<Rightarrow> heading list \<Rightarrow> heading list" where
  "post_process_outline iteration_order outline =
     (if outline = [] then outline
      else fst (foldl (process_item iteration_order) ([], []) (sort_key sort_key_of outline)))"

subsection \<open>The whole extraction\<close>

record extraction =
  result_title :: string
  result_outline :: "heading list"

definition extract_headings ::
  "(string list \<Rightarrow> string list) \<Rightarrow> extractor \<Rightarrow> document \<Rightarrow> error + (extraction \<times> extractor)" where
  "extract_headings iteration_order self doc =
     (case extract_title self doc of
        Inl e \<Rightarrow> Inl e
      | Inr (title, self1) \<Rightarrow>
          let self2 = self1\<lparr>document_title := Some (lower (strip title))\<rparr> in
          (case analyze_document_fonts doc of
             Inl e \<Rightarrow> Inl e
           | Inr font_analysis \<Rightarrow>
               (case process_pages doc font_analysis [0 ..< length (pages doc)] ([], self2) of
                  Inl e \<Rightarrow> Inl e
                | Inr (outline, self3) \<Rightarrow>
                    Inr (\<lparr> result_title = title,
                           result_outline = post_process_outline iteration_order outline \<rparr>,
                         self3))))"

text \<open>
  \<open>process_pdf\<close> builds a new extractor for each document and extracts its headings
  (the result is then written to a file, which is left out here).
\<close>

definition process_pdf ::
  "(string list \<Rightarrow> string list) \<Rightarrow> (string \<Rightarrow> string list option) option \<Rightarrow> document \<Rightarrow>
   error + extraction" where
  "process_pdf iteration_order model doc =
     map_sum id fst (extract_headings iteration_order (init model) doc)"

subsection \<open>Vocabulary of the properties\<close>

text \<open>All the spans of a document, page by page and block by block.\<close>

definition page_lines :: "pdf_page \<Rightarrow> line list" where
  "page_lines pg = concat (map (\<lambda>b. case lines b of None \<Rightarrow> [] | Some ls \<Rightarrow> ls) (blocks pg))"

definition all_spans :: "document \<Rightarrow> span list" where
  "all_spans doc = concat (map (\<lambda>pg. concat (map spans (page_lines pg))) (pages doc))"

text \<open>The sizes that the analyzer samples from a document.\<close>

definition sampled_sizes :: "document \<Rightarrow> real list" where
  "sampled_sizes doc =
     concat (map (\<lambda>n. page_sizes (pages doc ! n)) (sample_pages (length (pages doc))))"

text \<open>The set of strings that a regular expression denotes.\<close>

inductive_set star :: "string set \<Rightarrow> string set" for L :: "string set" where
  star_nil: "[] \<in> star L"
| star_step: "u \<in> L \<Longrightarrow> v \<in> star L \<Longrightarrow> u @ v \<in> star L"

fun lang :: "regex \<Rightarrow> string set" where
  "lang Never = {}"
| "lang Empty = {[]}"
| "lang (Atom a) = {[c] | c. cmatch a c}"
| "lang (Seq r s) = {u @ v | u v. u \<in> lang r \<and> v \<in> lang s}"
| "lang (Alt r s) = lang r \<union> lang s"
| "lang (Star r) = star (lang r)"

text \<open>
  The post-processor in the words of its description: an item is dropped when its text key
  is already kept or is a fragment of a kept text; otherwise the kept texts that are
  fragments of it are removed and the item is kept.
\<close>

definition text_key_of :: "heading \<Rightarrow> string" where
  "text_key_of h = lower (strip (htext h))"

definition keep_or_drop :: "heading list \<Rightarrow> heading \<Rightarrow> heading list" where
  "keep_or_drop kept item =
     (if text_key_of item \<in> text_key_of ` set kept \<or>
         (\<exists>h \<in> set kept. is_fragment_of (text_key_of item) (text_key_of h))
      then kept
      else filter (\<lambda>h. \<not> is_fragment_of (text_key_of h) (text_key_of item)) kept @ [item])"

text \<open>No two entries have the same text key, and no text key is a fragment of another.\<close>

definition fragment_free :: "heading list \<Rightarrow> bool" where
  "fragment_free hs =
     (distinct (map text_key_of hs) \<and>
      (\<forall>a \<in> set hs. \<forall>b \<in> set hs. \<not> is_fragment_of (text_key_of a) (text_key_of b)))"

text \<open>
  Every item seen so far is kept or is a fragment of a kept entry, and every kept entry is
  the first of the items seen so far with its text key.
\<close>

definition first_kept :: "heading list \<Rightarrow> heading list \<Rightarrow> bool" where
  "first_kept kept seen_items =
     ((\<forall>d \<in> set seen_items. text_key_of d \<in> text_key_of ` set kept \<or>
          (\<exists>h \<in> set kept. is_fragment_of (text_key_of d) (text_key_of h))) \<and>
      (\<forall>h \<in> set kept. find (\<lambda>c. text_key_of c = text_key_of h) seen_items = Some h))"

text \<open>
  The key of the classifier's deduplication as the code builds it, and as the pair that it
  stands for.
\<close>

definition code_key :: "heading \<Rightarrow> string" where
  "code_key h = level h @ '':'' @ lower (htext h)"


text \<open>
  The lines of a document in the order of the page scan, each with its page number, and
  what a line yields when the set of seen keys is left out of account: the classified
  candidates before deduplication.
\<close>

definition scan_order :: "document \<Rightarrow> (nat \<times> line) list" where
  "scan_order doc =
     concat (map (\<lambda>i. map (Pair (i + 1)) (page_lines (pages doc ! i))) [0 ..< length (pages doc)])"

definition line_candidate :: "extractor \<Rightarrow> font_analysis \<Rightarrow> nat \<Rightarrow> line \<Rightarrow> heading option" where
  "line_candidate self fa pn l =
     (if spans l = [] then None
      else let (combined, max_size, min_y, flags, font) = combine_spans (spans l);
               combined_text = strip combined
      in if combined_text \<noteq> [] \<and> is_valid_heading_text combined_text
         then fst (classify_heading (self\<lparr>seen_headings := {}\<rparr>) combined_text max_size min_y pn
                     flags font fa)
         else None)"

definition candidate_of :: "extractor \<Rightarrow> font_analysis \<Rightarrow> nat \<times> line \<Rightarrow> heading list" where
  "candidate_of self fa pl =
     fst (process_line (fst pl) fa ([], self\<lparr>seen_headings := {}\<rparr>) (snd pl))"

definition pre_dedup_candidates :: "extractor \<Rightarrow> document \<Rightarrow> heading list" where
  "pre_dedup_candidates self doc =
     (case (extract_title self doc, analyze_document_fonts doc) of
        (Inr (title, self1), Inr fa) \<Rightarrow>
          concat (map (candidate_of (self1\<lparr>document_title := Some (lower (strip title))\<rparr>) fa)
                    (scan_order doc))
      | _ \<Rightarrow> [])"

text \<open>
  The outline that the page scan hands to the post-processor: the loop over the pages in
  \<open>extract_headings\<close>, after the title and the font analysis.
\<close>

definition page_scan_outline :: "extractor \<Rightarrow> document \<Rightarrow> heading list" where
  "page_scan_outline self doc =
     (case (extract_title self doc, analyze_document_fonts doc) of
        (Inr (title, self1), Inr fa) \<Rightarrow>
          (case process_pages doc fa [0 ..< length (pages doc)]
                  ([], self1\<lparr>document_title := Some (lower (strip title))\<rparr>) of
             Inr (outline, self3) \<Rightarrow> outline
           | Inl e \<Rightarrow> [])
      | _ \<Rightarrow> [])"

text \<open>The first occurrence of each key wins.\<close>

fun first_occurrences :: "string set \<Rightarrow> heading list \<Rightarrow> heading list" where
  "first_occurrences seen [] = []"
| "first_occurrences seen (h # hs) =
     (if code_key h \<in> seen then first_occurrences seen hs
      else h # first_occurrences (insert (code_key h) seen) hs)"

text \<open>The page scan as one loop over the lines of the document.\<close>

definition scan_lines ::
  "font_analysis \<Rightarrow> heading list \<times> extractor \<Rightarrow> (nat \<times> line) list \<Rightarrow> heading list \<times> extractor" where
  "scan_lines fa st pls = foldl (\<lambda>st pl. process_line (fst pl) fa st (snd pl)) st pls"

subsection \<open>Example documents\<close>

definition example_span :: "string \<Rightarrow> real \<Rightarrow> int \<Rightarrow> real \<Rightarrow> span" where
  "example_span t s f y =
     \<lparr> span_text = t, span_size = s, span_flags = f, span_font = ''Helvetica'',
       span_origin = (72, y) \<rparr>"

definition example_block :: "span list \<Rightarrow> block" where
  "example_block sps = \<lparr> lines = Some [\<lparr> spans = sps \<rparr>] \<rparr>"

text \<open>
  One page: a title at the top, then, in the order of the content stream, a heading that
  is drawn low on the page (y = 500) and a heading that is drawn high on the page (y = 100).
\<close>

definition report_page :: pdf_page where
  "report_page =
     \<lparr> page_text = ''Annual Report of the Company'' @ [CHR 0x0A] @ ''Results Overview'' @
                   [CHR 0x0A] @ ''Market Background'',
       blocks = [ example_block [example_span ''Annual Report of the Company'' 28 16 80],
                  example_block [example_span ''Results Overview'' 18 0 500],
                  example_block [example_span ''The company did well this year.'' 12 0 540],
                  example_block [example_span ''Market Background'' 18 0 100],
                  example_block [example_span ''The market was stable in all regions.'' 12 0 140],
                  example_block [example_span ''Demand grew in the second half.'' 12 0 160] ],
       rect_height = 800 \<rparr>"

text \<open>A second page that repeats the first heading in capitals.\<close>

definition report_page2 :: pdf_page where
  "report_page2 =
     \<lparr> page_text = ''RESULTS OVERVIEW'',
       blocks = [ example_block [example_span ''RESULTS OVERVIEW'' 18 0 90],
                  example_block [example_span ''The figures are given in the table below.'' 12 0 130] ],
       rect_height = 800 \<rparr>"

definition report_doc :: document where
  "report_doc = \<lparr> doc_name = ''/app/input/report.pdf'', pages = [report_page, report_page2] \<rparr>"

text \<open>A page with a picture and a running header only.\<close>

definition picture_doc :: document where
  "picture_doc =
     \<lparr> doc_name = ''/app/input/picture.pdf'',
       pages = [ \<lparr> page_text = ''Page 1'',
                   blocks = [ \<lparr> lines = None \<rparr>, example_block [example_span ''Page 1'' 9 0 20] ],
                   rect_height = 800 \<rparr> ] \<rparr>"

text \<open>
  Candidates as the page scan hands them over: a truncated heading and its completion, a
  repetition of the completion at another level, and an unrelated heading.
\<close>

definition example_outline :: "heading list" where
  "example_outline =
     [ \<lparr> level = ''H2'', htext = ''Executive Summary of Findings'', page = 2, y_pos = None \<rparr>,
       \<lparr> level = ''H1'', htext = ''Executive Summ'', page = 1, y_pos = None \<rparr>,
       \<lparr> level = ''H3'', htext = ''executive summary of findings'', page = 3, y_pos = None \<rparr>,
       \<lparr> level = ''H2'', htext = ''Methods'', page = 1, y_pos = None \<rparr> ]"

text \<open>A document whose title has ten characters, and a heading that contains the title.\<close>

definition q3_doc :: document where
  "q3_doc =
     \<lparr> doc_name = ''/app/input/q3.pdf'',
       pages = [ \<lparr> page_text = ''Q3 Results'' @ [CHR 0x0A] @ ''Q3 Results Overview'',
                   blocks = [ example_block [example_span ''Q3 Results'' 28 16 80],
                              example_block [example_span ''Q3 Results Overview'' 18 0 120],
                              example_block [example_span ''Revenue grew in all regions.'' 12 0 160],
                              example_block [example_span ''Costs fell in the second month.'' 12 0 180] ],
                   rect_height = 800 \<rparr> ] \<rparr>"

text \<open>A document with a line of boilerplate set in a large font.\<close>

definition memo_doc :: document where
  "memo_doc =
     \<lparr> doc_name = ''/app/input/memo.pdf'',
       pages = [ \<lparr> page_text = ''Quarterly Planning Notes'' @ [CHR 0x0A] @ ''Confidential Draft'',
                   blocks = [ example_block [example_span ''Quarterly Planning Notes'' 28 16 80],
                              example_block [example_span ''Confidential Draft'' 18 0 120],
                              example_block [example_span ''The plan covers the next quarter.'' 12 0 160],
                              example_block [example_span ''It lists the goals of each team.'' 12 0 180] ],
                   rect_height = 800 \<rparr> ] \<rparr>"

text \<open>
  A document with a truncated heading on page 1, its completion on page 2 and the truncated
  heading again, in a larger font, on page 3.
\<close>

definition fragment_doc :: document where
  "fragment_doc =
     \<lparr> doc_name = ''/app/input/findings.pdf'',
       pages =
         [ \<lparr> page_text = ''Annual Report of the Company'' @ [CHR 0x0A] @ ''Executive Summ'',
             blocks = [ example_block [example_span ''Annual Report of the Company'' 28 16 80],
                        example_block [example_span ''Executive Summ'' 18 0 120],
                        example_block [example_span ''The report has three parts.'' 12 0 160],
                        example_block [example_span ''Each part has its own table.'' 12 0 180] ],
             rect_height = 800 \<rparr>,
           \<lparr> page_text = ''Executive Summary of Findings'',
             blocks = [ example_block [example_span ''Executive Summary of Findings'' 18 0 90],
                        example_block [example_span ''The findings are listed below.'' 12 0 130] ],
             rect_height = 800 \<rparr>,
           \<lparr> page_text = ''Executive Summ'',
             blocks = [ example_block [example_span ''Executive Summ'' 22 0 90],
                        example_block [example_span ''The figures follow in the annex.'' 12 0 130] ],
             rect_height = 800 \<rparr> ] \<rparr>"

text \<open>
  A sentence of 13 words and the tags of its 15 tokens, three of which are content words.
\<close>

definition example_sentence :: string where
  "example_sentence = ''we went to the old house, and then it was time to sleep.''"

definition example_tagger :: "string \<Rightarrow> string list option" where
  "example_tagger t =
     Some [''PRON'', ''VERB'', ''ADP'', ''DET'', ''ADJ'', ''NOUN'', ''PUNCT'', ''CCONJ'', ''ADV'',
           ''PRON'', ''AUX'', ''NOUN'', ''PART'', ''VERB'', ''PUNCT'']"

section \<open>Properties\<close>

subsection \<open>Font statistics\<close>

lemma collect_font_sizes_ok:
  "\<forall>n\<in>set ns. n < length (pages doc) \<Longrightarrow>
   collect_font_sizes doc ns acc = Inr (acc @ concat (map (\<lambda>n. page_sizes (pages doc ! n)) ns))"
  by (induction ns arbitrary: acc) (simp_all add: load_page_def)

lemma sample_pages_in_range: "n \<in> set (sample_pages t) \<Longrightarrow> n < t"
  by (auto simp: sample_pages_def split: if_splits)

lemma collect_sampled:
  "collect_font_sizes doc (sample_pages (length (pages doc))) [] = Inr (sampled_sizes doc)"
  using collect_font_sizes_ok[of "sample_pages (length (pages doc))" doc "[]"]
  by (simp add: sample_pages_in_range sampled_sizes_def)

lemma counter_add_keys: "fst ` set (counter_add x c) = insert x (fst ` set c)"
  by (induction x c rule: counter_add.induct) auto

lemma Counter_keys_aux: "fst ` set (foldl (\<lambda>c x. counter_add x c) c0 xs) = fst ` set c0 \<union> set xs"
  by (induction xs arbitrary: c0) (auto simp: counter_add_keys)

lemma Counter_keys: "fst ` set (Counter xs) = set xs"
  by (simp add: Counter_def Counter_keys_aux)

lemma first_max_mem: "first_max b kvs \<in> insert b (set kvs)"
  by (induction b kvs rule: first_max.induct) auto

lemma most_common1_mem: "most_common1 c = Some kv \<Longrightarrow> kv \<in> set c"
  using first_max_mem by (auto simp: most_common1_def split: list.splits)

lemma most_common1_Counter:
  assumes "xs \<noteq> []"
  shows "\<exists>b n. most_common1 (Counter xs) = Some (b, n) \<and> b \<in> set xs"
proof -
  have "Counter xs \<noteq> []" using Counter_keys[of xs] assms by auto
  then obtain kv where kv: "most_common1 (Counter xs) = Some kv"
    by (cases "Counter xs") (auto simp: most_common1_def)
  then have "fst kv \<in> set xs" using most_common1_mem[OF kv] Counter_keys[of xs] by auto
  with kv show ?thesis by (cases kv) auto
qed

lemma analyze_cases:
  "(sampled_sizes doc = [] \<and> analyze_document_fonts doc = Inr get_default_thresholds) \<or>
   (\<exists>b \<in> set (sampled_sizes doc).
      analyze_document_fonts doc = Inr (thresholds_of (sampled_sizes doc) b))"
proof (cases "sampled_sizes doc = []")
  case True
  then show ?thesis by (simp add: analyze_document_fonts_def collect_sampled)
next
  case False
  from most_common1_Counter[OF False] obtain b n
    where "most_common1 (Counter (sampled_sizes doc)) = Some (b, n)" "b \<in> set (sampled_sizes doc)"
    by blast
  with False show ?thesis by (auto simp: analyze_document_fonts_def collect_sampled)
qed

lemma unique_sizes_desc:
  "i \<le> j \<Longrightarrow> j < length (unique_sizes_of fs) \<Longrightarrow> unique_sizes_of fs ! j \<le> unique_sizes_of fs ! i"
  unfolding unique_sizes_of_def
  by (simp add: rev_nth sorted_nth_mono)

lemma thresholds_of_mono:
  assumes "0 \<le> b"
  shows "h1_threshold (thresholds_of fs b) \<ge> h2_threshold (thresholds_of fs b)"
    and "h2_threshold (thresholds_of fs b) \<ge> h3_threshold (thresholds_of fs b)"
    and "h3_threshold (thresholds_of fs b) \<ge> h4_threshold (thresholds_of fs b)"
    and "h4_threshold (thresholds_of fs b) \<ge> base_size (thresholds_of fs b)"
  using assms unique_sizes_desc[of 0 1 fs] unique_sizes_desc[of 1 2 fs] unique_sizes_desc[of 2 3 fs]
  by (auto simp: thresholds_of_def Let_def max_def)

lemma span_sizes_sub: "x \<in> set (span_sizes pg sp) \<Longrightarrow> x = span_size sp"
  by (auto simp: span_sizes_def split: if_splits)

lemma page_sizes_sub: "x \<in> set (page_sizes pg) \<Longrightarrow> \<exists>sp \<in> set (concat (map spans (page_lines pg))). x = span_size sp"
  by (fastforce simp: page_sizes_def block_sizes_def page_lines_def dest: span_sizes_sub split: option.splits)

lemma sampled_sizes_sub:
  assumes "x \<in> set (sampled_sizes doc)"
  shows "\<exists>sp \<in> set (all_spans doc). x = span_size sp"
proof -
  from assms obtain n where n: "n \<in> set (sample_pages (length (pages doc)))" "x \<in> set (page_sizes (pages doc ! n))"
    by (auto simp: sampled_sizes_def)
  then have "pages doc ! n \<in> set (pages doc)" using sample_pages_in_range by simp
  with page_sizes_sub[OF n(2)] show ?thesis by (auto simp: all_spans_def)
qed

text \<open>
  Claim C9.  When no span of the sampled pages survives the margin and the length filters,
  the analyzer returns, without an error, the fixed analysis: body size 12 and the
  thresholds 18, 16, 14 and 13.
\<close>

theorem default_thresholds_when_nothing_sampled:
  assumes "sampled_sizes doc = []"
  shows "analyze_document_fonts doc =
           Inr \<lparr> base_size = 12, h1_threshold = 18, h2_threshold = 16, h3_threshold = 14,
                 h4_threshold = 13, all_sizes = [18, 16, 14, 13, 12], size_distribution = [] \<rparr>"
  using analyze_cases[of doc] assms by (auto simp: get_default_thresholds_def)

theorem default_thresholds_witness:
  "sampled_sizes picture_doc = [] \<and>
   analyze_document_fonts picture_doc =
           Inr \<lparr> base_size = 12, h1_threshold = 18, h2_threshold = 16, h3_threshold = 14,
                 h4_threshold = 13, all_sizes = [18, 16, 14, 13, 12], size_distribution = [] \<rparr>"
proof -
  have h: "sampled_sizes picture_doc = []"
    by (simp add: sampled_sizes_def sample_pages_def picture_doc_def page_sizes_def
        block_sizes_def example_block_def example_span_def span_sizes_def
        header_footer_margin_def)
  from h default_thresholds_when_nothing_sampled[OF h] show ?thesis by simp
qed

text \<open>
  Claim C3.  For every document whose spans have the non-negative sizes that a font size
  is, the analyzer returns an analysis, the default one included, with
  \<open>h1 \<ge> h2 \<ge> h3 \<ge> h4 \<ge> bodySize\<close>.
\<close>

theorem thresholds_non_increasing:
  assumes "\<forall>sp \<in> set (all_spans doc). 0 \<le> span_size sp"
  shows "\<exists>fa. analyze_document_fonts doc = Inr fa \<and>
           h1_threshold fa \<ge> h2_threshold fa \<and> h2_threshold fa \<ge> h3_threshold fa \<and>
           h3_threshold fa \<ge> h4_threshold fa \<and> h4_threshold fa \<ge> base_size fa"
  using analyze_cases[of doc]
proof
  assume "sampled_sizes doc = [] \<and> analyze_document_fonts doc = Inr get_default_thresholds"
  then show ?thesis by (simp add: get_default_thresholds_def)
next
  assume "\<exists>b \<in> set (sampled_sizes doc).
      analyze_document_fonts doc = Inr (thresholds_of (sampled_sizes doc) b)"
  then obtain b where b: "b \<in> set (sampled_sizes doc)"
    "analyze_document_fonts doc = Inr (thresholds_of (sampled_sizes doc) b)" by blast
  from sampled_sizes_sub[OF b(1)] assms have "0 \<le> b" by auto
  from thresholds_of_mono[OF this] b(2) show ?thesis by simp
qed

theorem thresholds_non_increasing_witness:
  "list_all (\<lambda>sp. 0 \<le> span_size sp) (all_spans report_doc) \<and>
   (\<exists>fa. analyze_document_fonts report_doc = Inr fa \<and>
           h1_threshold fa \<ge> h2_threshold fa \<and> h2_threshold fa \<ge> h3_threshold fa \<and>
           h3_threshold fa \<ge> h4_threshold fa \<and> h4_threshold fa \<ge> base_size fa)"
proof -
  have h: "\<forall>sp \<in> set (all_spans report_doc). 0 \<le> span_size sp"
    by (simp add: all_spans_def report_doc_def report_page_def report_page2_def page_lines_def
        example_block_def example_span_def)
  from h thresholds_non_increasing[OF h] show ?thesis by (simp add: list_all_iff)
qed

subsection \<open>Level assignment\<close>

lemma bold_flag_bit: "(and (flags::int) 16 \<noteq> 0) = bit flags 4"
  using bit_iff_and_push_bit_not_eq_0[of flags 4] by (simp add: push_bit_eq_mult)

text \<open>
  Claim C7.  The level is the one of the first threshold that the size reaches, the
  thresholds being tried from h1 down to h4; below all four, the level is H4 exactly when
  bit 4 of the flags is set and the size is at least 1.05 times the body size, and there
  is no level otherwise.
\<close>

theorem determine_heading_level_largest_first:
  "(sz \<ge> h1_threshold fa \<longrightarrow> determine_heading_level sz flags fa = Some ''H1'') \<and>
   (sz < h1_threshold fa \<and> sz \<ge> h2_threshold fa \<longrightarrow>
      determine_heading_level sz flags fa = Some ''H2'') \<and>
   (sz < h1_threshold fa \<and> sz < h2_threshold fa \<and> sz \<ge> h3_threshold fa \<longrightarrow>
      determine_heading_level sz flags fa = Some ''H3'') \<and>
   (sz < h1_threshold fa \<and> sz < h2_threshold fa \<and> sz < h3_threshold fa \<and>
    sz \<ge> h4_threshold fa \<longrightarrow>
      determine_heading_level sz flags fa = Some ''H4'') \<and>
   (sz < h1_threshold fa \<and> sz < h2_threshold fa \<and> sz < h3_threshold fa \<and>
    sz < h4_threshold fa \<longrightarrow>
      determine_heading_level sz flags fa =
        (if bit flags 4 \<and> sz \<ge> 1.05 * base_size fa then Some ''H4'' else None))"
  by (simp add: determine_heading_level_def bold_flag_bit mult.commute)

text \<open>A line of 22pt with h1 = 24 and h2 = 20 is H2.\<close>

theorem determine_heading_level_witness:
  "determine_heading_level 22 16
     \<lparr> base_size = 12, h1_threshold = 24, h2_threshold = 20, h3_threshold = 16,
       h4_threshold = 14, all_sizes = [], size_distribution = [] \<rparr> = Some ''H2''"
  using determine_heading_level_largest_first
    [where sz = 22 and flags = 16 and
       fa = "\<lparr> base_size = 12, h1_threshold = 24, h2_threshold = 20, h3_threshold = 16,
               h4_threshold = 14, all_sizes = [], size_distribution = [] \<rparr>"]
  by simp

subsection \<open>Regular expressions\<close>

text \<open>
  The matcher by derivatives decides membership in the language of the pattern, and
  \<open>match_prefix\<close> decides whether a prefix of the string is in it.
\<close>

lemma nullable_lang: "nullable r \<longleftrightarrow> [] \<in> lang r"
  by (induction r) (auto intro: star_nil)

lemma lang_seq: "lang (seq r s) = lang (Seq r s)"
  by (auto simp: seq_def)

lemma lang_alt: "lang (alt r s) = lang (Alt r s)"
  by (auto simp: alt_def)

lemma star_Cons:
  "c # w \<in> star L \<longleftrightarrow> (\<exists>u v. w = u @ v \<and> c # u \<in> L \<and> v \<in> star L)"
proof
  assume "c # w \<in> star L"
  then show "\<exists>u v. w = u @ v \<and> c # u \<in> L \<and> v \<in> star L"
  proof (induction "c # w" arbitrary: w rule: star.induct)
    case (star_step u v)
    show ?case
    proof (cases u)
      case Nil
      with star_step(4) have "v = c # w" by simp
      then show ?thesis by (rule star_step(3))
    next
      case (Cons d u')
      with star_step(1,2,4) show ?thesis by auto
    qed
  qed
next
  assume "\<exists>u v. w = u @ v \<and> c # u \<in> L \<and> v \<in> star L"
  then obtain u v where "w = u @ v" "c # u \<in> L" "v \<in> star L" by blast
  then have "(c # u) @ v \<in> star L" by (intro star_step)
  with \<open>w = u @ v\<close> show "c # w \<in> star L" by simp
qed

lemma deriv_lang: "w \<in> lang (deriv c r) \<longleftrightarrow> c # w \<in> lang r"
proof (induction r arbitrary: w)
  case (Seq r s)
  show ?case
  proof (cases "nullable r")
    case True
    then have "w \<in> lang (deriv c (Seq r s)) \<longleftrightarrow>
        (\<exists>u v. w = u @ v \<and> c # u \<in> lang r \<and> v \<in> lang s) \<or> c # w \<in> lang s"
      using Seq by (auto simp: lang_alt lang_seq)
    also have "\<dots> \<longleftrightarrow> c # w \<in> lang (Seq r s)"
      using True by (auto simp: nullable_lang Cons_eq_append_conv) 
    finally show ?thesis .
  next
    case False
    then have "w \<in> lang (deriv c (Seq r s)) \<longleftrightarrow>
        (\<exists>u v. w = u @ v \<and> c # u \<in> lang r \<and> v \<in> lang s)"
      using Seq by (auto simp: lang_seq)
    also have "\<dots> \<longleftrightarrow> c # w \<in> lang (Seq r s)"
      using False by (auto simp: nullable_lang Cons_eq_append_conv)
    finally show ?thesis .
  qed
next
  case (Star r)
  then show ?case by (auto simp: lang_seq star_Cons)
qed (auto simp: lang_alt)

lemma match_all_lang: "match_all r s \<longleftrightarrow> s \<in> lang r"
  by (induction s arbitrary: r) (simp_all add: nullable_lang deriv_lang)

lemma match_prefix_lang: "match_prefix r s \<longleftrightarrow> (\<exists>p q. s = p @ q \<and> p \<in> lang r)"
proof (induction s arbitrary: r)
  case Nil
  then show ?case by (simp add: nullable_lang)
next
  case (Cons c cs)
  have "(\<exists>p q. c # cs = p @ q \<and> p \<in> lang r) \<longleftrightarrow>
        [] \<in> lang r \<or> (\<exists>p q. cs = p @ q \<and> c # p \<in> lang r)"
    by (auto simp: Cons_eq_append_conv)
  then show ?case using Cons by (simp add: nullable_lang deriv_lang)
qed

lemma lang_Str: "lang (Str w) = {w}"
  by (induction w) (auto simp: Str_def)

lemma lower_char_not_upper: "\<not> isupper_char (lower_char c)"
proof (cases "isupper_char c")
  case True
  let ?n = "of_char c :: nat"
  from True have n: "(65 \<le> ?n \<and> ?n \<le> 90) \<or> (192 \<le> ?n \<and> ?n \<le> 214) \<or> (216 \<le> ?n \<and> ?n \<le> 222)"
    by (simp add: isupper_char_def Let_def)
  then have "(of_char (char_of (?n + 32)) :: nat) = ?n + 32" by auto
  with n have "\<not> isupper_char (char_of (?n + 32))"
    unfolding isupper_char_def Let_def by presburger
  with True show ?thesis by (simp add: lower_char_def)
next
  case False
  then show ?thesis by (simp add: lower_char_def)
qed

lemma capital_pattern_never_matches:
  assumes "isupper_char c"
  shows "\<not> re_match (Pat (Str (c # w))) (lower t)"
proof
  assume "re_match (Pat (Str (c # w))) (lower t)"
  then obtain q where "lower t = (c # w) @ q"
    by (auto simp: match_prefix_lang lang_Str)
  then obtain d where "lower_char d = c" by (cases t) (auto simp: lower_def)
  with assms lower_char_not_upper[of d] show False by simp
qed

lemma confidential_draft_never_match:
  "\<not> re_match (Pat (Str ''Confidential'')) (lower t) \<and> \<not> re_match (Pat (Str ''Draft'')) (lower t)"
  using capital_pattern_never_matches[of "CHR ''C''" "''onfidential''" t]
    capital_pattern_never_matches[of "CHR ''D''" "''raft''" t]
  by (simp add: isupper_char_def)

subsection \<open>The post-processor\<close>

lemma startswith_iff: "startswith s p \<longleftrightarrow> prefix p s"
  by (auto simp: startswith_def prefix_def) (metis append_take_drop_id)

lemma contains_iff_sublist: "contains b a \<longleftrightarrow> sublist a b"
  by (induction b) (auto simp: startswith_iff sublist_Cons_right)

lemma is_fragment_of_trans:
  assumes "is_fragment_of a b" "is_fragment_of b c"
  shows "is_fragment_of a c"
proof -
  have "sublist a c" using assms
    by (auto simp: is_fragment_of_def contains_iff_sublist intro: sublist_order.order.trans)
  moreover have "real (length a) < real (length c) * 0.8" "length a < length c"
    using assms by (auto simp: is_fragment_of_def)
  ultimately show ?thesis by (simp add: is_fragment_of_def contains_iff_sublist)
qed

lemma is_fragment_of_irrefl: "\<not> is_fragment_of a a"
  by (simp add: is_fragment_of_def)

lemma is_fragment_of_asym: "is_fragment_of a b \<Longrightarrow> \<not> is_fragment_of b a"
  by (simp add: is_fragment_of_def)

lemma scan_seen_no_fragment:
  assumes "\<forall>s \<in> set ss. \<not> is_fragment_of k s"
  shows "scan_seen k ss (cl, sn) =
           (False,
            filter (\<lambda>h. \<not> (text_key_of h \<in> set ss \<and> is_fragment_of (text_key_of h) k)) cl,
            filter (\<lambda>s. \<not> (s \<in> set ss \<and> is_fragment_of s k)) sn)"
  using assms
proof (induction ss arbitrary: cl sn)
  case Nil
  then show ?case by simp
next
  case (Cons s ss)
  then have nf: "\<not> is_fragment_of k s" and rest: "\<forall>s \<in> set ss. \<not> is_fragment_of k s" by auto
  show ?case
  proof (cases "is_fragment_of s k")
    case True
    have "filter (\<lambda>h. \<not> (text_key_of h \<in> set ss \<and> is_fragment_of (text_key_of h) k))
            (filter (\<lambda>h. lower (strip (htext h)) \<noteq> s) cl) =
          filter (\<lambda>h. \<not> (text_key_of h \<in> set (s # ss) \<and> is_fragment_of (text_key_of h) k)) cl"
      using True by (auto simp: text_key_of_def intro!: filter_cong)
    moreover have "filter (\<lambda>t. \<not> (t \<in> set ss \<and> is_fragment_of t k)) (removeAll s sn) =
          filter (\<lambda>t. \<not> (t \<in> set (s # ss) \<and> is_fragment_of t k)) sn"
      using True by (auto simp: removeAll_filter_not_eq intro!: filter_cong)
    ultimately show ?thesis using nf True Cons.IH[OF rest] by simp
  next
    case False
    have "filter (\<lambda>h. \<not> (text_key_of h \<in> set ss \<and> is_fragment_of (text_key_of h) k)) cl =
          filter (\<lambda>h. \<not> (text_key_of h \<in> set (s # ss) \<and> is_fragment_of (text_key_of h) k)) cl"
      using False by (auto intro!: filter_cong)
    moreover have "filter (\<lambda>t. \<not> (t \<in> set ss \<and> is_fragment_of t k)) sn =
          filter (\<lambda>t. \<not> (t \<in> set (s # ss) \<and> is_fragment_of t k)) sn"
      using False by (auto intro!: filter_cong)
    ultimately show ?thesis using nf False Cons.IH[OF rest] by simp
  qed
qed

lemma scan_seen_fragment:
  assumes "\<exists>s \<in> set ss. is_fragment_of k s" "\<forall>s \<in> set ss. \<not> is_fragment_of s k"
  shows "scan_seen k ss (cl, sn) = (True, cl, sn)"
  using assms by (induction ss arbitrary: cl sn) auto

lemma scan_seen_subseq: "subseq (fst (snd (scan_seen k ss (cl, sn)))) cl"
proof (induction ss arbitrary: cl sn)
  case Nil
  then show ?case by simp
next
  case (Cons s ss)
  have "subseq (fst (snd (scan_seen k ss (filter (\<lambda>h. lower (strip (htext h)) \<noteq> s) cl, removeAll s sn)))) cl"
    using Cons.IH[of "filter (\<lambda>h. lower (strip (htext h)) \<noteq> s) cl" "removeAll s sn"]
    by (rule subseq_order.trans) simp
  then show ?case using Cons.IH[of cl sn] by simp
qed

lemma process_item_subseq:
  "subseq (fst (process_item ord (cl, sn) item)) (cl @ [item])"
proof -
  obtain b cl' sn' where sc: "scan_seen (lower (strip (htext item))) (ord sn) (cl, sn) = (b, cl', sn')"
    by (metis prod_cases3)
  then have "subseq cl' cl" using scan_seen_subseq[of "lower (strip (htext item))" "ord sn" cl sn] by simp
  then show ?thesis using sc
    by (auto simp: process_item_def Let_def subseq_rev_drop_many)
qed

lemma foldl_process_item_subseq:
  "subseq (fst (foldl (process_item ord) (cl, sn) xs)) (cl @ xs)"
proof (induction xs arbitrary: cl sn)
  case Nil
  then show ?case by simp
next
  case (Cons x xs)
  obtain cl' sn' where st: "process_item ord (cl, sn) x = (cl', sn')" by (cases "process_item ord (cl, sn) x")
  have "subseq cl' (cl @ [x])" using process_item_subseq[of ord cl sn x] st by simp
  then have "subseq (cl' @ xs) ((cl @ [x]) @ xs)"
    by (rule list_emb_append_mono) simp
  then have "subseq (cl' @ xs) (cl @ x # xs)" by simp
  with Cons.IH[of cl' sn'] show ?case using st
    by (auto intro: subseq_order.trans)
qed

lemma post_process_subseq:
  "subseq (post_process_outline ord outline) (sort_key sort_key_of outline)"
  using foldl_process_item_subseq[of ord "[]" "[]" "sort_key sort_key_of outline"]
  by (simp add: post_process_outline_def)


lemma keep_or_drop_fragment_free:
  assumes "fragment_free cl"
  shows "fragment_free (keep_or_drop cl item)"
proof (cases "text_key_of item \<in> text_key_of ` set cl \<or>
         (\<exists>h \<in> set cl. is_fragment_of (text_key_of item) (text_key_of h))")
  case True
  then show ?thesis using assms by (simp add: keep_or_drop_def)
next
  case False
  let ?k = "text_key_of item"
  let ?cl = "filter (\<lambda>h. \<not> is_fragment_of (text_key_of h) ?k) cl"
  have d: "distinct (map text_key_of ?cl)"
    using assms by (simp add: fragment_free_def distinct_map_filter)
  have new: "?k \<notin> text_key_of ` set ?cl" using False by auto
  have "distinct (map text_key_of (?cl @ [item]))" using d new by simp
  moreover have "\<forall>a \<in> set (?cl @ [item]). \<forall>b \<in> set (?cl @ [item]).
      \<not> is_fragment_of (text_key_of a) (text_key_of b)"
  proof (intro ballI)
    fix a b assume a: "a \<in> set (?cl @ [item])" and b: "b \<in> set (?cl @ [item])"
    have old: "\<And>x y. x \<in> set cl \<Longrightarrow> y \<in> set cl \<Longrightarrow>
        \<not> is_fragment_of (text_key_of x) (text_key_of y)"
      using assms by (simp add: fragment_free_def)
    from a have a': "a = item \<or> (a \<in> set cl \<and> \<not> is_fragment_of (text_key_of a) ?k)" by auto
    from b have b': "b = item \<or> (b \<in> set cl \<and> \<not> is_fragment_of (text_key_of b) ?k)" by auto
    from a' b' show "\<not> is_fragment_of (text_key_of a) (text_key_of b)"
      using old False is_fragment_of_irrefl by blast
  qed
  ultimately have "fragment_free (?cl @ [item])" unfolding fragment_free_def by (rule conjI)
  moreover have "keep_or_drop cl item = ?cl @ [item]"
    unfolding keep_or_drop_def using False by (rule if_not_P)
  ultimately show ?thesis by (rule back_subst[where P = fragment_free, OF _ sym])
qed

lemma process_item_keep_or_drop:
  assumes ord: "\<And>xs. set (ord xs) = set xs"
    and sn: "set sn = text_key_of ` set cl"
    and ff: "fragment_free cl"
  shows "\<exists>sn'. process_item ord (cl, sn) item = (keep_or_drop cl item, sn') \<and>
               set sn' = text_key_of ` set (keep_or_drop cl item)"
proof -
  let ?k = "text_key_of item"
  have k: "lower (strip (htext item)) = ?k" by (simp add: text_key_of_def)
  consider (dup) "?k \<in> set sn"
    | (frag) "?k \<notin> set sn" "\<exists>s \<in> set sn. is_fragment_of ?k s"
    | (new) "?k \<notin> set sn" "\<forall>s \<in> set sn. \<not> is_fragment_of ?k s" by blast
  then show ?thesis
  proof cases
    case dup
    then show ?thesis using sn by (simp add: process_item_def k keep_or_drop_def)
  next
    case frag
    then obtain s0 where s0: "s0 \<in> set sn" "is_fragment_of ?k s0" by blast
    have "\<forall>s \<in> set (ord sn). \<not> is_fragment_of s ?k"
    proof
      fix s assume "s \<in> set (ord sn)"
      then have "s \<in> set sn" using ord by simp
      show "\<not> is_fragment_of s ?k"
      proof
        assume "is_fragment_of s ?k"
        then have "is_fragment_of s s0" using s0(2) by (rule is_fragment_of_trans)
        with \<open>s \<in> set sn\<close> s0(1) sn ff show False by (auto simp: fragment_free_def)
      qed
    qed
    moreover have "\<exists>s \<in> set (ord sn). is_fragment_of ?k s" using frag(2) ord by simp
    ultimately have "scan_seen ?k (ord sn) (cl, sn) = (True, cl, sn)"
      by (rule scan_seen_fragment[rotated])
    moreover have "keep_or_drop cl item = cl" using frag(2) sn by (auto simp: keep_or_drop_def)
    ultimately show ?thesis using frag(1) sn by (simp add: process_item_def k)
  next
    case new
    then have "\<forall>s \<in> set (ord sn). \<not> is_fragment_of ?k s" using ord by simp
    then have sc: "scan_seen ?k (ord sn) (cl, sn) =
           (False,
            filter (\<lambda>h. \<not> (text_key_of h \<in> set (ord sn) \<and> is_fragment_of (text_key_of h) ?k)) cl,
            filter (\<lambda>s. \<not> (s \<in> set (ord sn) \<and> is_fragment_of s ?k)) sn)"
      by (rule scan_seen_no_fragment)
    have f1: "filter (\<lambda>h. \<not> (text_key_of h \<in> set (ord sn) \<and> is_fragment_of (text_key_of h) ?k)) cl =
              filter (\<lambda>h. \<not> is_fragment_of (text_key_of h) ?k) cl"
      using sn ord by (auto intro!: filter_cong)
    have f2: "filter (\<lambda>s. \<not> (s \<in> set (ord sn) \<and> is_fragment_of s ?k)) sn =
              filter (\<lambda>s. \<not> is_fragment_of s ?k) sn"
      using ord by (auto intro!: filter_cong)
    have kd: "keep_or_drop cl item = filter (\<lambda>h. \<not> is_fragment_of (text_key_of h) ?k) cl @ [item]"
      using new sn by (auto simp: keep_or_drop_def)
    have "set (set_add ?k (filter (\<lambda>s. \<not> is_fragment_of s ?k) sn)) =
          text_key_of ` set (filter (\<lambda>h. \<not> is_fragment_of (text_key_of h) ?k) cl @ [item])"
      using sn by (auto simp: set_add_def)
    then show ?thesis using new(1) sc f1 f2 kd by (simp add: process_item_def k Let_def)
  qed
qed

lemma foldl_process_item_keep_or_drop:
  assumes ord: "\<And>xs. set (ord xs) = set xs"
  shows "set sn = text_key_of ` set cl \<Longrightarrow> fragment_free cl \<Longrightarrow>
         fst (foldl (process_item ord) (cl, sn) xs) = foldl keep_or_drop cl xs"
proof (induction xs arbitrary: cl sn)
  case Nil
  then show ?case by simp
next
  case (Cons x xs)
  from process_item_keep_or_drop[OF ord Cons.prems, of x] obtain sn'
    where st: "process_item ord (cl, sn) x = (keep_or_drop cl x, sn')"
      and sn': "set sn' = text_key_of ` set (keep_or_drop cl x)" by blast
  have "fragment_free (keep_or_drop cl x)" using Cons.prems(2) by (rule keep_or_drop_fragment_free)
  from Cons.IH[OF sn' this] show ?case using st by simp
qed

lemma foldl_keep_or_drop_fragment_free:
  "fragment_free cl \<Longrightarrow> fragment_free (foldl keep_or_drop cl xs)"
  by (induction xs arbitrary: cl) (simp_all add: keep_or_drop_fragment_free)

lemma fragment_free_Nil: "fragment_free []"
  by (simp add: fragment_free_def)

lemma post_process_outline_eq:
  assumes "\<And>xs. set (ord xs) = set xs"
  shows "post_process_outline ord outline = foldl keep_or_drop [] (sort_key sort_key_of outline)"
proof (cases "outline = []")
  case True
  then show ?thesis by (simp add: post_process_outline_def)
next
  case False
  then show ?thesis
    using foldl_process_item_keep_or_drop[OF assms, of "[]" "[]", OF _ fragment_free_Nil]
    by (simp add: post_process_outline_def)
qed

lemma foldl_keep_or_drop_fixed:
  "fragment_free (cl @ ys) \<Longrightarrow> foldl keep_or_drop cl ys = cl @ ys"
proof (induction ys arbitrary: cl)
  case Nil
  then show ?case by simp
next
  case (Cons y ys)
  have "keep_or_drop cl y = cl @ [y]"
  proof -
    have "text_key_of y \<notin> text_key_of ` set cl" using Cons.prems by (auto simp: fragment_free_def)
    moreover have "\<forall>h \<in> set cl. \<not> is_fragment_of (text_key_of y) (text_key_of h)"
      using Cons.prems by (auto simp: fragment_free_def)
    moreover have "filter (\<lambda>h. \<not> is_fragment_of (text_key_of h) (text_key_of y)) cl = cl"
      using Cons.prems by (auto simp: fragment_free_def)
    ultimately show ?thesis by (auto simp: keep_or_drop_def)
  qed
  then show ?case using Cons.IH[of "cl @ [y]"] Cons.prems by simp
qed

lemma subseq_set: "subseq xs ys \<Longrightarrow> set xs \<subseteq> set ys"
  by (induction rule: list_emb.induct) auto

lemma subseq_sorted_map:
  "subseq xs ys \<Longrightarrow> sorted (map f ys) \<Longrightarrow> sorted (map f xs)"
proof (induction rule: list_emb.induct)
  case (list_emb_Nil ys)
  then show ?case by simp
next
  case (list_emb_Cons xs ys y)
  then show ?case by simp
next
  case (list_emb_Cons2 x y xs ys)
  from list_emb_Cons2(2) have "set xs \<subseteq> set ys" by (rule subseq_set)
  with list_emb_Cons2 show ?case by auto
qed


lemma find_snoc:
  "find P (xs @ [x]) = (case find P xs of None \<Rightarrow> (if P x then Some x else None) | Some y \<Rightarrow> Some y)"
  by (induction xs) auto

lemma keep_or_drop_first_kept:
  assumes "first_kept cl seen_items"
  shows "first_kept (keep_or_drop cl x) (seen_items @ [x])"
proof (cases "text_key_of x \<in> text_key_of ` set cl \<or>
         (\<exists>h \<in> set cl. is_fragment_of (text_key_of x) (text_key_of h))")
  case True
  then have kd: "keep_or_drop cl x = cl" by (simp add: keep_or_drop_def)
  have "\<forall>d \<in> set (seen_items @ [x]). text_key_of d \<in> text_key_of ` set cl \<or>
          (\<exists>h \<in> set cl. is_fragment_of (text_key_of d) (text_key_of h))"
    using assms True unfolding first_kept_def by auto
  moreover have "\<forall>h \<in> set cl. find (\<lambda>c. text_key_of c = text_key_of h) (seen_items @ [x]) = Some h"
    using assms unfolding first_kept_def by (simp add: find_snoc)
  ultimately show ?thesis unfolding kd first_kept_def by (rule conjI)
next
  case False
  let ?k = "text_key_of x"
  let ?cl = "filter (\<lambda>h. \<not> is_fragment_of (text_key_of h) ?k) cl"
  have kd: "keep_or_drop cl x = ?cl @ [x]"
    unfolding keep_or_drop_def using False by (rule if_not_P)
  have a: "\<forall>d \<in> set (seen_items @ [x]). text_key_of d \<in> text_key_of ` set (?cl @ [x]) \<or>
          (\<exists>h \<in> set (?cl @ [x]). is_fragment_of (text_key_of d) (text_key_of h))"
  proof
    fix d assume "d \<in> set (seen_items @ [x])"
    then consider "d = x" | "d \<in> set seen_items" by auto
    then show "text_key_of d \<in> text_key_of ` set (?cl @ [x]) \<or>
          (\<exists>h \<in> set (?cl @ [x]). is_fragment_of (text_key_of d) (text_key_of h))"
    proof cases
      case 1
      then show ?thesis by simp
    next
      case 2
      with assms consider (key) h where "h \<in> set cl" "text_key_of d = text_key_of h"
        | (frag) h where "h \<in> set cl" "is_fragment_of (text_key_of d) (text_key_of h)"
        unfolding first_kept_def by blast
      then show ?thesis
      proof cases
        case key
        show ?thesis
        proof (cases "is_fragment_of (text_key_of h) ?k")
          case True
          then have "is_fragment_of (text_key_of d) (text_key_of x)" using key(2) by simp
          then show ?thesis by auto
        next
          case False
          then have "h \<in> set ?cl" using key(1) by simp
          then show ?thesis using key(2) by auto
        qed
      next
        case frag
        show ?thesis
        proof (cases "is_fragment_of (text_key_of h) ?k")
          case True
          with frag(2) have "is_fragment_of (text_key_of d) (text_key_of x)"
            by (rule is_fragment_of_trans)
          then show ?thesis by auto
        next
          case False
          then have "h \<in> set ?cl" using frag(1) by simp
          then show ?thesis using frag(2) by auto
        qed
      qed
    qed
  qed
  have nokey: "find (\<lambda>c. text_key_of c = ?k) seen_items = None"
  proof (rule ccontr)
    assume "find (\<lambda>c. text_key_of c = ?k) seen_items \<noteq> None"
    then obtain d where "d \<in> set seen_items" "text_key_of d = ?k"
      by (auto simp: find_None_iff)
    with assms have "?k \<in> text_key_of ` set cl \<or>
          (\<exists>h \<in> set cl. is_fragment_of ?k (text_key_of h))"
      unfolding first_kept_def by metis
    with False show False by simp
  qed
  have b: "\<forall>h \<in> set (?cl @ [x]). find (\<lambda>c. text_key_of c = text_key_of h) (seen_items @ [x]) = Some h"
  proof
    fix h assume "h \<in> set (?cl @ [x])"
    then consider "h = x" | "h \<in> set cl" by auto
    then show "find (\<lambda>c. text_key_of c = text_key_of h) (seen_items @ [x]) = Some h"
    proof cases
      case 1
      then show ?thesis using nokey by (simp add: find_snoc)
    next
      case 2
      then have "find (\<lambda>c. text_key_of c = text_key_of h) seen_items = Some h"
        using assms unfolding first_kept_def by simp
      then show ?thesis by (simp add: find_snoc)
    qed
  qed
  from a b show ?thesis unfolding kd first_kept_def by (rule conjI)
qed

lemma foldl_keep_or_drop_first_kept:
  "first_kept cl seen_items \<Longrightarrow> first_kept (foldl keep_or_drop cl xs) (seen_items @ xs)"
proof (induction xs arbitrary: cl seen_items)
  case Nil
  then show ?case by simp
next
  case (Cons x xs)
  from Cons.prems have "first_kept (keep_or_drop cl x) (seen_items @ [x])"
    by (rule keep_or_drop_first_kept)
  from Cons.IH[OF this] show ?case by simp
qed

text \<open>
  Claim C6.  The post-processor is idempotent: applied to its own output, it drops no item
  and changes no order.  (For every order in which the set of seen texts is iterated.)
\<close>

theorem post_process_idempotent:
  assumes "\<And>xs. set (ord xs) = set xs"
  shows "post_process_outline ord (post_process_outline ord outline) =
         post_process_outline ord outline"
proof -
  let ?ys = "post_process_outline ord outline"
  have ys: "?ys = foldl keep_or_drop [] (sort_key sort_key_of outline)"
    by (rule post_process_outline_eq[OF assms])
  have ff: "fragment_free ?ys"
    unfolding ys by (rule foldl_keep_or_drop_fragment_free[OF fragment_free_Nil])
  have "sorted (map sort_key_of ?ys)"
    using post_process_subseq[of ord outline] by (rule subseq_sorted_map) simp
  then have "sort_key sort_key_of ?ys = ?ys" by (rule sort_key_id_if_sorted)
  then have "post_process_outline ord ?ys = foldl keep_or_drop [] ?ys"
    using post_process_outline_eq[OF assms, of ?ys] by simp
  also have "\<dots> = ?ys" using foldl_keep_or_drop_fixed[of "[]" ?ys] ff by simp
  finally show ?thesis .
qed

theorem post_process_idempotent_witness:
  "post_process_outline (\<lambda>xs. xs) example_outline =
     [ \<lparr> level = ''H2'', htext = ''Methods'', page = 1, y_pos = None \<rparr>,
       \<lparr> level = ''H2'', htext = ''Executive Summary of Findings'', page = 2, y_pos = None \<rparr> ] \<and>
   post_process_outline (\<lambda>xs. xs) (post_process_outline (\<lambda>xs. xs) example_outline) =
     post_process_outline (\<lambda>xs. xs) example_outline"
proof -
  have "post_process_outline (\<lambda>xs. xs) example_outline =
     [ \<lparr> level = ''H2'', htext = ''Methods'', page = 1, y_pos = None \<rparr>,
       \<lparr> level = ''H2'', htext = ''Executive Summary of Findings'', page = 2, y_pos = None \<rparr> ]"
    by code_simp
  then show ?thesis
    using post_process_idempotent[of "\<lambda>xs. xs" example_outline] by simp
qed

subsection \<open>The page scan\<close>

lemma is_heading_like_seen [simp]:
  "is_heading_like (self\<lparr>seen_headings := S\<rparr>) text = is_heading_like self text"
  by (simp add: is_heading_like_def)

lemma classify_heading_cases:
  "classify_heading self text sz y pn fl fo fa = (None, self) \<or>
   (\<exists>lvl. determine_heading_level sz fl fa = Some lvl \<and>
      \<not> (truthy_str (document_title self) \<and> is_title_duplicate (the (document_title self)) text) \<and>
      lvl @ '':'' @ lower text \<notin> seen_headings self \<and>
      classify_heading self text sz y pn fl fo fa =
        (Some \<lparr> level = lvl, htext = text, page = pn, y_pos = None \<rparr>,
         self\<lparr>seen_headings := insert (lvl @ '':'' @ lower text) (seen_headings self)\<rparr>))"
  by (auto simp: classify_heading_def Let_def split: option.splits)

lemma classify_heading_seen:
  "fst (classify_heading self text sz y pn fl fo fa) =
     (case fst (classify_heading (self\<lparr>seen_headings := {}\<rparr>) text sz y pn fl fo fa) of
        None \<Rightarrow> None
      | Some h \<Rightarrow> if code_key h \<in> seen_headings self then None else Some h)"
  by (auto simp: classify_heading_def Let_def code_key_def split: option.splits)

lemma classify_heading_state:
  "snd (classify_heading self text sz y pn fl fo fa) =
     (case fst (classify_heading (self\<lparr>seen_headings := {}\<rparr>) text sz y pn fl fo fa) of
        None \<Rightarrow> self
      | Some h \<Rightarrow> self\<lparr>seen_headings := insert (code_key h) (seen_headings self)\<rparr>)"
  by (auto simp: classify_heading_def Let_def code_key_def insert_absorb split: option.splits)


lemma candidate_of_eq:
  "candidate_of self fa (pn, l) = (case line_candidate self fa pn l of None \<Rightarrow> [] | Some h \<Rightarrow> [h])"
proof -
  obtain c m y f fo where cs: "combine_spans (spans l) = (c, m, y, f, fo)" by (metis prod_cases5)
  obtain r s where cl: "classify_heading (self\<lparr>seen_headings := {}\<rparr>) (strip c) m y pn f fo fa = (r, s)"
    by (cases "classify_heading (self\<lparr>seen_headings := {}\<rparr>) (strip c) m y pn f fo fa")
  show ?thesis
    by (cases r) (simp_all add: candidate_of_def process_line_def line_candidate_def cs cl Let_def)
qed

lemma process_line_eq:
  "process_line pn fa (hs, self) l =
     (case line_candidate self fa pn l of
        None \<Rightarrow> (hs, self)
      | Some h \<Rightarrow> if code_key h \<in> seen_headings self then (hs, self)
                  else (hs @ [h], self\<lparr>seen_headings := insert (code_key h) (seen_headings self)\<rparr>))"
proof -
  obtain c m y f fo where cs: "combine_spans (spans l) = (c, m, y, f, fo)" by (metis prod_cases5)
  obtain r s where cl: "classify_heading self (strip c) m y pn f fo fa = (r, s)"
    by (cases "classify_heading self (strip c) m y pn f fo fa")
  have r: "r = (case fst (classify_heading (self\<lparr>seen_headings := {}\<rparr>) (strip c) m y pn f fo fa) of
        None \<Rightarrow> None
      | Some h \<Rightarrow> if code_key h \<in> seen_headings self then None else Some h)"
    using classify_heading_seen[of self "strip c" m y pn f fo fa] cl by simp
  have s: "s = (case fst (classify_heading (self\<lparr>seen_headings := {}\<rparr>) (strip c) m y pn f fo fa) of
        None \<Rightarrow> self
      | Some h \<Rightarrow> self\<lparr>seen_headings := insert (code_key h) (seen_headings self)\<rparr>)"
    using classify_heading_state[of self "strip c" m y pn f fo fa] cl by simp
  show ?thesis
    by (simp add: process_line_def line_candidate_def cs cl r s insert_absorb Let_def split: option.splits)
qed

lemma line_candidate_seen [simp]:
  "line_candidate (self\<lparr>seen_headings := S\<rparr>) fa pn l = line_candidate self fa pn l"
proof -
  obtain c m y f fo where cs: "combine_spans (spans l) = (c, m, y, f, fo)" by (metis prod_cases5)
  show ?thesis by (simp add: line_candidate_def cs Let_def)
qed

lemma candidate_of_seen [simp]:
  "candidate_of (self\<lparr>seen_headings := S\<rparr>) fa pl = candidate_of self fa pl"
  by (cases pl) (simp add: candidate_of_eq)

lemma scan_lines_eq:
  "scan_lines fa (hs, self) pls =
     (hs @ first_occurrences (seen_headings self) (concat (map (candidate_of self fa) pls)),
      self\<lparr>seen_headings :=
             seen_headings self \<union> code_key ` set (concat (map (candidate_of self fa) pls))\<rparr>)"
proof (induction pls arbitrary: hs self)
  case Nil
  then show ?case by (simp add: scan_lines_def)
next
  case (Cons pl pls)
  obtain pn l where pl: "pl = (pn, l)" by (cases pl)
  have step: "scan_lines fa (hs, self) ((pn, l) # pls) =
      scan_lines fa (process_line pn fa (hs, self) l) pls"
    by (simp add: scan_lines_def)
  show ?case
  proof (cases "line_candidate self fa pn l")
    case None
    then show ?thesis using Cons.IH[of hs self]
      by (simp add: step process_line_eq candidate_of_eq pl)
  next
    case (Some h)
    show ?thesis
    proof (cases "code_key h \<in> seen_headings self")
      case True
      then show ?thesis using Cons.IH[of hs self] Some
        by (simp add: step process_line_eq candidate_of_eq pl insert_absorb)
    next
      case False
      then show ?thesis
        using Cons.IH[of "hs @ [h]" "self\<lparr>seen_headings := insert (code_key h) (seen_headings self)\<rparr>"] Some
        by (simp add: step process_line_eq candidate_of_eq pl)
    qed
  qed
qed


lemma process_block_eq:
  "process_block pn fa st b =
     foldl (process_line pn fa) st (case lines b of None \<Rightarrow> [] | Some ls \<Rightarrow> ls)"
  by (simp add: process_block_def split: option.splits)

lemma foldl_process_block:
  "foldl (process_block pn fa) st bs =
     foldl (process_line pn fa) st
       (concat (map (\<lambda>b. case lines b of None \<Rightarrow> [] | Some ls \<Rightarrow> ls) bs))"
  by (induction bs arbitrary: st) (simp_all add: process_block_eq)

lemma foldl_process_line_scan:
  "foldl (process_line pn fa) st ls = scan_lines fa st (map (Pair pn) ls)"
  by (induction ls arbitrary: st) (simp_all add: scan_lines_def)

lemma extract_page_headings_eq:
  "extract_page_headings self pg pn fa = scan_lines fa ([], self) (map (Pair pn) (page_lines pg))"
  by (simp add: extract_page_headings_def foldl_process_block foldl_process_line_scan page_lines_def)

lemma scan_lines_append:
  "scan_lines fa st (xs @ ys) = scan_lines fa (scan_lines fa st xs) ys"
  by (simp add: scan_lines_def)

lemma scan_lines_outline:
  "scan_lines fa (outline, self) pls =
     (outline @ fst (scan_lines fa ([], self) pls), snd (scan_lines fa ([], self) pls))"
  by (simp add: scan_lines_eq)

lemma process_pages_eq:
  "\<forall>n \<in> set ns. n < length (pages doc) \<Longrightarrow>
   process_pages doc fa ns st =
     Inr (scan_lines fa st
            (concat (map (\<lambda>i. map (Pair (i + 1)) (page_lines (pages doc ! i))) ns)))"
proof (induction ns arbitrary: st)
  case Nil
  then show ?case by (simp add: scan_lines_def)
next
  case (Cons n ns)
  obtain outline self where st: "st = (outline, self)" by (cases st)
  let ?pls = "map (Pair (n + 1)) (page_lines (pages doc ! n))"
  have "process_pages doc fa (n # ns) st =
        process_pages doc fa ns
          (outline @ fst (scan_lines fa ([], self) ?pls), snd (scan_lines fa ([], self) ?pls))"
    using Cons.prems
    by (simp add: st load_page_def extract_page_headings_eq split_beta Let_def)
  also have "\<dots> = process_pages doc fa ns (scan_lines fa st ?pls)"
    using scan_lines_outline[of fa outline self ?pls] by (simp add: st)
  also have "\<dots> = Inr (scan_lines fa (scan_lines fa st ?pls)
            (concat (map (\<lambda>i. map (Pair (i + 1)) (page_lines (pages doc ! i))) ns)))"
    using Cons.prems by (intro Cons.IH) simp
  finally show ?case by (simp add: scan_lines_append)
qed

lemma process_pages_all:
  "process_pages doc fa [0 ..< length (pages doc)] st = Inr (scan_lines fa st (scan_order doc))"
  using process_pages_eq[of "[0 ..< length (pages doc)]" doc fa st] by (simp add: scan_order_def)

lemma extract_title_seen:
  "extract_title self doc = Inr (title, self1) \<Longrightarrow> seen_headings self1 = seen_headings self"
  by (auto simp: extract_title_def Let_def split: sum.splits option.splits)

lemma extract_headings_outline:
  assumes "extract_headings ord self doc = Inr (r, self')"
  shows "\<exists>self1. extract_title self doc = Inr (result_title r, self1) \<and>
          result_outline r =
            post_process_outline ord
              (first_occurrences (seen_headings self) (pre_dedup_candidates self doc))"
proof -
  from assms obtain title self1 where t: "extract_title self doc = Inr (title, self1)"
    by (auto simp: extract_headings_def split: sum.splits)
  from assms t obtain fa where fa: "analyze_document_fonts doc = Inr fa"
    by (auto simp: extract_headings_def Let_def split: sum.splits)
  let ?self2 = "self1\<lparr>document_title := Some (lower (strip title))\<rparr>"
  have seen: "seen_headings ?self2 = seen_headings self" using extract_title_seen[OF t] by simp
  have pp: "process_pages doc fa [0 ..< length (pages doc)] ([], ?self2) =
        Inr (first_occurrences (seen_headings self) (concat (map (candidate_of ?self2 fa) (scan_order doc))),
             ?self2\<lparr>seen_headings := seen_headings ?self2 \<union>
                code_key ` set (concat (map (candidate_of ?self2 fa) (scan_order doc)))\<rparr>)"
    unfolding process_pages_all scan_lines_eq seen by simp
  have cands: "pre_dedup_candidates self doc = concat (map (candidate_of ?self2 fa) (scan_order doc))"
    by (simp add: pre_dedup_candidates_def t fa)
  from assms show ?thesis
    unfolding extract_headings_def t fa Let_def by (auto simp: pp cands)
qed


lemma first_occurrences_subseq: "subseq (first_occurrences S cs) cs"
  by (induction cs arbitrary: S) auto






lemma post_process_set: "set (post_process_outline ord outline) \<subseteq> set outline"
  using subseq_set[OF post_process_subseq[of ord outline]] by simp


lemma not_valid_if_short: "length (strip t) < 5 \<Longrightarrow> \<not> is_valid_heading_text t"
  by (simp add: is_valid_heading_text_def min_heading_length_def)

lemma line_candidate_props:
  assumes "line_candidate self fa pn l = Some h"
  shows "is_valid_heading_text (htext h) \<and>
         \<not> (truthy_str (document_title self) \<and>
            is_title_duplicate (the (document_title self)) (htext h)) \<and>
         page h = pn \<and> y_pos h = None"
proof -
  obtain c m y f fo where cs: "combine_spans (spans l) = (c, m, y, f, fo)" by (metis prod_cases5)
  from assms have v: "is_valid_heading_text (strip c)"
    and cl: "fst (classify_heading (self\<lparr>seen_headings := {}\<rparr>) (strip c) m y pn f fo fa) = Some h"
    by (auto simp: line_candidate_def cs Let_def split: if_splits)
  from classify_heading_cases[of "self\<lparr>seen_headings := {}\<rparr>" "strip c" m y pn f fo fa] cl
  show ?thesis using v by auto
qed

lemma candidate_of_props:
  assumes "h \<in> set (candidate_of self fa pl)"
  shows "is_valid_heading_text (htext h) \<and>
         \<not> (truthy_str (document_title self) \<and>
            is_title_duplicate (the (document_title self)) (htext h))"
proof -
  obtain pn l where pl: "pl = (pn, l)" by (cases pl)
  from assms have "line_candidate self fa pn l = Some h"
    by (auto simp: pl candidate_of_eq split: option.splits)
  from line_candidate_props[OF this] show ?thesis by simp
qed









subsection \<open>Runs on the example documents\<close>

lemma report_doc_run:
  "process_pdf (\<lambda>xs. xs) None report_doc =
     Inr \<lparr> result_title = ''Annual Report of the Company'',
           result_outline =
             [ \<lparr> level = ''H3'', htext = ''Results Overview'', page = 1, y_pos = None \<rparr>,
               \<lparr> level = ''H3'', htext = ''Market Background'', page = 1, y_pos = None \<rparr> ] \<rparr>"
  by code_simp


lemma report_page_positions:
  "map (\<lambda>l. case combine_spans (spans l) of (t, m, y, r) \<Rightarrow> (t, y)) (page_lines report_page) =
     [ (''Annual Report of the Company'', Some 80), (''Results Overview'', Some 500),
       (''The company did well this year.'', Some 540), (''Market Background'', Some 100),
       (''The market was stable in all regions.'', Some 140),
       (''Demand grew in the second half.'', Some 160) ]"
  by code_simp

lemma q3_doc_run:
  "process_pdf (\<lambda>xs. xs) None q3_doc =
     Inr \<lparr> result_title = ''Q3 Results'',
           result_outline =
             [ \<lparr> level = ''H3'', htext = ''Q3 Results Overview'', page = 1, y_pos = None \<rparr> ] \<rparr>"
  by code_simp

lemma memo_doc_run:
  "process_pdf (\<lambda>xs. xs) None memo_doc =
     Inr \<lparr> result_title = ''Quarterly Planning Notes'',
           result_outline =
             [ \<lparr> level = ''H3'', htext = ''Confidential Draft'', page = 1, y_pos = None \<rparr> ] \<rparr>"
  by code_simp


lemma fragment_doc_page_scan:
  "page_scan_outline (init None) fragment_doc =
     [ \<lparr> level = ''H3'', htext = ''Executive Summ'', page = 1, y_pos = None \<rparr>,
       \<lparr> level = ''H3'', htext = ''Executive Summary of Findings'', page = 2, y_pos = None \<rparr>,
       \<lparr> level = ''H2'', htext = ''Executive Summ'', page = 3, y_pos = None \<rparr> ]"
  by code_simp

lemma fragment_doc_run:
  "process_pdf (\<lambda>xs. xs) None fragment_doc =
     Inr \<lparr> result_title = ''Annual Report of the Company'',
           result_outline =
             [ \<lparr> level = ''H3'', htext = ''Executive Summary of Findings'', page = 2, y_pos = None \<rparr> ] \<rparr>"
  by code_simp

lemma confidential_draft_is_valid: "is_valid_heading_text ''Confidential Draft''"
  by code_simp

lemma boilerplate_patterns_never_match:
  "map (\<lambda>p. re_match p (lower ''Confidential Draft'')) exclude_patterns =
     [False, False, False, False, False, False, False]"
  by code_simp

subsection \<open>Order of the outline\<close>

text \<open>
  Claim C1 says that, within a page, the entries of the outline appear from top to bottom.
  The code sorts by \<open>(page, y_pos)\<close>, but \<open>classify_heading\<close> does not store
  \<open>y_pos\<close> in the heading, so the key is \<open>(page, 0)\<close> and the entries of a page stay in
  the order of the scan.  On the example, ``Results Overview'' (y = 500) comes before
  ``Market Background'' (y = 100).
\<close>

theorem outline_keeps_scan_order_within_page:
  "process_pdf (\<lambda>xs. xs) None report_doc =
     Inr \<lparr> result_title = ''Annual Report of the Company'',
           result_outline =
             [ \<lparr> level = ''H3'', htext = ''Results Overview'', page = 1, y_pos = None \<rparr>,
               \<lparr> level = ''H3'', htext = ''Market Background'', page = 1, y_pos = None \<rparr> ] \<rparr> \<and>
   map (\<lambda>l. case combine_spans (spans l) of (t, m, y, r) \<Rightarrow> (t, y)) (page_lines report_page) =
     [ (''Annual Report of the Company'', Some 80), (''Results Overview'', Some 500),
       (''The company did well this year.'', Some 540), (''Market Background'', Some 100),
       (''The market was stable in all regions.'', Some 140),
       (''Demand grew in the second half.'', Some 160) ]"
  using report_doc_run report_page_positions by (rule conjI)

subsection \<open>Deduplication by level and text\<close>



subsection \<open>Deduplication by text\<close>

text \<open>
  Claim C10 says that the post-processor keeps the first occurrence of every text.  The
  fragment rule removes a kept entry when a later text completes it: on the example the
  page scan yields ``Executive Summ'' (page 1), ``Executive Summary of Findings'' (page 2)
  and ``Executive Summ'' again at another level (page 3); the first occurrence of
  ``executive summ'' is removed by its completion, the later one is dropped as a fragment,
  and no entry with that text remains.
\<close>

theorem first_occurrence_removed_counterexample:
  "page_scan_outline (init None) fragment_doc =
     [ \<lparr> level = ''H3'', htext = ''Executive Summ'', page = 1, y_pos = None \<rparr>,
       \<lparr> level = ''H3'', htext = ''Executive Summary of Findings'', page = 2, y_pos = None \<rparr>,
       \<lparr> level = ''H2'', htext = ''Executive Summ'', page = 3, y_pos = None \<rparr> ] \<and>
   find (\<lambda>c. text_key_of c = ''executive summ'')
     (sort_key sort_key_of
        [ \<lparr> level = ''H3'', htext = ''Executive Summ'', page = 1, y_pos = None \<rparr>,
          \<lparr> level = ''H3'', htext = ''Executive Summary of Findings'', page = 2, y_pos = None \<rparr>,
          \<lparr> level = ''H2'', htext = ''Executive Summ'', page = 3, y_pos = None \<rparr> ]) =
     Some \<lparr> level = ''H3'', htext = ''Executive Summ'', page = 1, y_pos = None \<rparr> \<and>
   process_pdf (\<lambda>xs. xs) None fragment_doc =
     Inr \<lparr> result_title = ''Annual Report of the Company'',
           result_outline =
             [ \<lparr> level = ''H3'', htext = ''Executive Summary of Findings'', page = 2, y_pos = None \<rparr> ] \<rparr>"
proof -
  have "find (\<lambda>c. text_key_of c = ''executive summ'')
     (sort_key sort_key_of
        [ \<lparr> level = ''H3'', htext = ''Executive Summ'', page = 1, y_pos = None \<rparr>,
          \<lparr> level = ''H3'', htext = ''Executive Summary of Findings'', page = 2, y_pos = None \<rparr>,
          \<lparr> level = ''H2'', htext = ''Executive Summ'', page = 3, y_pos = None \<rparr> ]) =
     Some \<lparr> level = ''H3'', htext = ''Executive Summ'', page = 1, y_pos = None \<rparr>"
    by code_simp
  with fragment_doc_page_scan fragment_doc_run show ?thesis by (intro conjI)
qed

text \<open>
  Claim C10, amended.  The post-processed outline has no two entries with the same
  stripped, lower-cased text, whatever their levels; each entry is the first item, in the
  sorted order, that has its text; every item of the input has the text of an entry or a
  text that is a fragment of an entry's text; and no entry's text is a fragment of another
  entry's text.  So the first occurrence of a text is kept exactly when the text is not a
  fragment of a kept text.
\<close>

theorem post_process_dedup_by_text:
  assumes "\<And>xs. set (ord xs) = set xs"
  shows "distinct (map text_key_of (post_process_outline ord outline)) \<and>
         (\<forall>h \<in> set (post_process_outline ord outline).
            find (\<lambda>c. text_key_of c = text_key_of h) (sort_key sort_key_of outline) = Some h) \<and>
         (\<forall>x \<in> set outline.
            text_key_of x \<in> text_key_of ` set (post_process_outline ord outline) \<or>
            (\<exists>h \<in> set (post_process_outline ord outline).
               is_fragment_of (text_key_of x) (text_key_of h))) \<and>
         (\<forall>a \<in> set (post_process_outline ord outline).
            \<forall>b \<in> set (post_process_outline ord outline).
              \<not> is_fragment_of (text_key_of a) (text_key_of b))"
proof -
  let ?ys = "post_process_outline ord outline"
  have ys: "?ys = foldl keep_or_drop [] (sort_key sort_key_of outline)"
    by (rule post_process_outline_eq[OF assms])
  have ff: "fragment_free ?ys"
    unfolding ys by (rule foldl_keep_or_drop_fragment_free[OF fragment_free_Nil])
  then have d: "distinct (map text_key_of ?ys)" by (simp add: fragment_free_def)
  from ff have anti: "\<forall>a \<in> set ?ys. \<forall>b \<in> set ?ys.
      \<not> is_fragment_of (text_key_of a) (text_key_of b)" by (simp add: fragment_free_def)
  have "first_kept [] []" by (simp add: first_kept_def)
  then have "first_kept (foldl keep_or_drop [] (sort_key sort_key_of outline))
      ([] @ sort_key sort_key_of outline)"
    by (rule foldl_keep_or_drop_first_kept)
  then have fk: "first_kept ?ys (sort_key sort_key_of outline)" unfolding ys by simp
  from fk have first: "\<forall>h \<in> set ?ys.
      find (\<lambda>c. text_key_of c = text_key_of h) (sort_key sort_key_of outline) = Some h"
    unfolding first_kept_def by (rule conjunct2)
  from fk have "\<forall>x \<in> set (sort_key sort_key_of outline).
      text_key_of x \<in> text_key_of ` set ?ys \<or>
      (\<exists>h \<in> set ?ys. is_fragment_of (text_key_of x) (text_key_of h))"
    unfolding first_kept_def by (rule conjunct1)
  then have cover: "\<forall>x \<in> set outline.
      text_key_of x \<in> text_key_of ` set ?ys \<or>
      (\<exists>h \<in> set ?ys. is_fragment_of (text_key_of x) (text_key_of h))" by simp
  from d first cover anti show ?thesis by (intro conjI)
qed

theorem post_process_dedup_by_text_witness:
  "post_process_outline (\<lambda>xs. xs) example_outline =
     [ \<lparr> level = ''H2'', htext = ''Methods'', page = 1, y_pos = None \<rparr>,
       \<lparr> level = ''H2'', htext = ''Executive Summary of Findings'', page = 2, y_pos = None \<rparr> ] \<and>
   distinct (map text_key_of (post_process_outline (\<lambda>xs. xs) example_outline)) \<and>
   list_all (\<lambda>h. find (\<lambda>c. text_key_of c = text_key_of h) (sort_key sort_key_of example_outline)
                    = Some h)
     (post_process_outline (\<lambda>xs. xs) example_outline) \<and>
   list_all (\<lambda>x. text_key_of x \<in> text_key_of ` set (post_process_outline (\<lambda>xs. xs) example_outline) \<or>
                  list_ex (\<lambda>h. is_fragment_of (text_key_of x) (text_key_of h))
                    (post_process_outline (\<lambda>xs. xs) example_outline))
     example_outline"
proof -
  have ev: "post_process_outline (\<lambda>xs. xs) example_outline =
     [ \<lparr> level = ''H2'', htext = ''Methods'', page = 1, y_pos = None \<rparr>,
       \<lparr> level = ''H2'', htext = ''Executive Summary of Findings'', page = 2, y_pos = None \<rparr> ]"
    by code_simp
  note t = post_process_dedup_by_text[of "\<lambda>xs. xs" example_outline]
  have d: "distinct (map text_key_of (post_process_outline (\<lambda>xs. xs) example_outline))"
    using t by simp
  have f: "list_all (\<lambda>h. find (\<lambda>c. text_key_of c = text_key_of h) (sort_key sort_key_of example_outline)
                    = Some h)
     (post_process_outline (\<lambda>xs. xs) example_outline)"
    using t by (simp add: list_all_iff)
  have c: "list_all (\<lambda>x. text_key_of x \<in> text_key_of ` set (post_process_outline (\<lambda>xs. xs) example_outline) \<or>
                  list_ex (\<lambda>h. is_fragment_of (text_key_of x) (text_key_of h))
                    (post_process_outline (\<lambda>xs. xs) example_outline))
     example_outline"
    using t by (simp add: list_all_iff list_ex_iff)
  from ev d f c show ?thesis by (intro conjI)
qed

subsection \<open>Exclusion of the title\<close>

text \<open>
  Claim C4 says that no entry contains the title or is contained in it, whatever the
  length of the title.  \<open>is_title_duplicate\<close> tests containment and similarity only for a
  title of more than 10 characters: with the title ``Q3 Results'' the heading
  ``Q3 Results Overview'' is accepted.
\<close>

theorem short_title_counterexample:
  "process_pdf (\<lambda>xs. xs) None q3_doc =
     Inr \<lparr> result_title = ''Q3 Results'',
           result_outline =
             [ \<lparr> level = ''H3'', htext = ''Q3 Results Overview'', page = 1, y_pos = None \<rparr> ] \<rparr> \<and>
   contains (lower (strip ''Q3 Results Overview'')) (lower (strip ''Q3 Results''))"
proof -
  have "contains (lower (strip ''Q3 Results Overview'')) (lower (strip ''Q3 Results''))"
    by code_simp
  with q3_doc_run show ?thesis by (rule conjI)
qed

text \<open>
  Claim C4, amended.  In the outline of a run, no entry's stripped, lower-cased text equals
  the lower-cased title; and when the lower-cased title has more than 10 characters, no
  entry's text is contained in the title, contains the title, or has a word-overlap
  similarity above 0.7 with it.
\<close>

theorem outline_excludes_title:
  assumes "process_pdf ord model doc = Inr r" and "h \<in> set (result_outline r)"
  shows "text_key_of h \<noteq> lower (strip (result_title r)) \<and>
         (length (lower (strip (result_title r))) > 10 \<longrightarrow>
            \<not> contains (lower (strip (result_title r))) (text_key_of h) \<and>
            \<not> contains (text_key_of h) (lower (strip (result_title r))) \<and>
            \<not> text_similarity (text_key_of h) (lower (strip (result_title r))) > 0.7)"
proof -
  let ?t = "lower (strip (result_title r))"
  from assms(1) obtain self' where eh: "extract_headings ord (init model) doc = Inr (r, self')"
    by (cases "extract_headings ord (init model) doc") (auto simp: process_pdf_def)
  from extract_headings_outline[OF eh] obtain self1
    where t: "extract_title (init model) doc = Inr (result_title r, self1)"
      and out: "result_outline r = post_process_outline ord
          (first_occurrences (seen_headings (init model)) (pre_dedup_candidates (init model) doc))"
    by blast
  from eh t obtain fa where fa: "analyze_document_fonts doc = Inr fa"
    by (auto simp: extract_headings_def Let_def split: sum.splits)
  let ?self2 = "self1\<lparr>document_title := Some ?t\<rparr>"
  have "h \<in> set (first_occurrences (seen_headings (init model))
                      (pre_dedup_candidates (init model) doc))"
    using assms(2) post_process_set unfolding out by (rule subsetD[rotated])
  then have "h \<in> set (pre_dedup_candidates (init model) doc)"
    using subseq_set[OF first_occurrences_subseq] by (rule subsetD[rotated])
  then obtain pl where "h \<in> set (candidate_of ?self2 fa pl)"
    by (auto simp: pre_dedup_candidates_def t fa)
  from candidate_of_props[OF this]
  have v: "is_valid_heading_text (htext h)"
    and nd: "\<not> (?t \<noteq> [] \<and> is_title_duplicate ?t (htext h))"
    by (simp_all add: truthy_str_def)
  have "length (strip (htext h)) \<ge> 5" using v not_valid_if_short[of "htext h"] by force
  then have k5: "length (text_key_of h) \<ge> 5" by (simp add: text_key_of_def lower_def)
  show ?thesis
  proof (cases "?t = []")
    case True
    with k5 show ?thesis by auto
  next
    case False
    with nd have "\<not> is_title_duplicate ?t (htext h)" by simp
    then show ?thesis
      by (auto simp: is_title_duplicate_def Let_def text_key_of_def split: if_splits)
  qed
qed

theorem outline_excludes_title_witness:
  "text_key_of \<lparr> level = ''H3'', htext = ''Results Overview'', page = 1, y_pos = None \<rparr> \<noteq>
     ''annual report of the company'' \<and>
   \<not> contains ''annual report of the company''
       (text_key_of \<lparr> level = ''H3'', htext = ''Results Overview'', page = 1, y_pos = None \<rparr>) \<and>
   \<not> contains (text_key_of \<lparr> level = ''H3'', htext = ''Results Overview'', page = 1, y_pos = None \<rparr>)
       ''annual report of the company'' \<and>
   \<not> text_similarity (text_key_of \<lparr> level = ''H3'', htext = ''Results Overview'', page = 1, y_pos = None \<rparr>)
       ''annual report of the company'' > 0.7"
proof -
  have t: "lower (strip ''Annual Report of the Company'') = ''annual report of the company''"
    by code_simp
  from outline_excludes_title[OF report_doc_run,
      of "\<lparr> level = ''H3'', htext = ''Results Overview'', page = 1, y_pos = None \<rparr>"] t
  show ?thesis by simp
qed

subsection \<open>Text screening\<close>

text \<open>
  Claim C5 says that a line that begins with ``Confidential'' or ``Draft'', in any letter
  case, is rejected by the screening.  The patterns \<open>^Confidential\<close> and \<open>^Draft\<close> are
  matched against the lower-cased text, which they never match: the line
  ``Confidential Draft'' passes the screening and is emitted as a heading.
\<close>

theorem confidential_line_is_emitted:
  "process_pdf (\<lambda>xs. xs) None memo_doc =
     Inr \<lparr> result_title = ''Quarterly Planning Notes'',
           result_outline =
             [ \<lparr> level = ''H3'', htext = ''Confidential Draft'', page = 1, y_pos = None \<rparr> ] \<rparr>"
  by (rule memo_doc_run)

subsection \<open>The two paths of the validator\<close>

text \<open>
  Claim C8.  A text of 13 words that matches no section-title pattern and does not end in a
  question mark, whose tokens are tagged with a ratio of content words of 0.2 and with no
  proper noun or numeral, is rejected when the tagger is present and accepted by the
  rule-based path.  (The letter case of the text plays no part: with 13 words the
  rule-based path accepts.)
\<close>

theorem validator_paths_diverge:
  assumes "length (split t) = 13"
    and "\<not> looks_like_section_title t"
    and "\<not> endswith (strip t) ''?''"
    and "tagger t = Some doc"
    and "real (length (filter (\<lambda>pos. pos \<in> content_pos) doc)) / real (length doc) = 0.2"
    and "\<forall>pos \<in> set doc. pos \<notin> {''PROPN'', ''NUM''}"
  shows "\<not> is_heading_like (self\<lparr>nlp := Some tagger\<rparr>) t \<and>
         is_heading_like (self\<lparr>nlp := None\<rparr>) t \<and>
         is_heading_like_rule_based t"
proof -
  let ?c = "length (filter (\<lambda>pos. pos \<in> content_pos) doc)"
  have nz: "length doc \<noteq> 0" using assms(5) by auto
  then have "5 * real ?c = real (length doc)" using assms(5) by (simp add: field_simps)
  then have "5 * ?c = length doc" by (metis of_nat_eq_iff of_nat_mult of_nat_numeral)
  with nz have len: "length doc > 3" by arith
  have rb: "is_heading_like_rule_based t"
    using assms(1) by (simp add: is_heading_like_rule_based_def)
  have "\<not> is_heading_like (self\<lparr>nlp := Some tagger\<rparr>) t"
    using assms len by (simp add: is_heading_like_def)
  moreover have "is_heading_like (self\<lparr>nlp := None\<rparr>) t"
    using rb by (simp add: is_heading_like_def)
  ultimately show ?thesis using rb by simp
qed

theorem validator_paths_diverge_witness:
  "\<not> is_heading_like ((init None)\<lparr>nlp := Some example_tagger\<rparr>) example_sentence \<and>
   is_heading_like ((init None)\<lparr>nlp := None\<rparr>) example_sentence \<and>
   is_heading_like_rule_based example_sentence"
proof -
  have w1: "length (split example_sentence) = 13" by code_simp
  have w2: "\<not> looks_like_section_title example_sentence" by code_simp
  have w3: "\<not> endswith (strip example_sentence) ''?''" by code_simp
  have w4: "example_tagger example_sentence =
      Some [''PRON'', ''VERB'', ''ADP'', ''DET'', ''ADJ'', ''NOUN'', ''PUNCT'', ''CCONJ'', ''ADV'',
            ''PRON'', ''AUX'', ''NOUN'', ''PART'', ''VERB'', ''PUNCT'']"
    by (simp add: example_tagger_def)
  have w5: "real (length (filter (\<lambda>pos. pos \<in> content_pos)
      [''PRON'', ''VERB'', ''ADP'', ''DET'', ''ADJ'', ''NOUN'', ''PUNCT'', ''CCONJ'', ''ADV'',
       ''PRON'', ''AUX'', ''NOUN'', ''PART'', ''VERB'', ''PUNCT''])) /
      real (length
      [''PRON'', ''VERB'', ''ADP'', ''DET'', ''ADJ'', ''NOUN'', ''PUNCT'', ''CCONJ'', ''ADV'',
       ''PRON'', ''AUX'', ''NOUN'', ''PART'', ''VERB'', ''PUNCT'']) = 0.2"
    by (simp add: content_pos_def)
  have w6: "\<forall>pos \<in> set
      [''PRON'', ''VERB'', ''ADP'', ''DET'', ''ADJ'', ''NOUN'', ''PUNCT'', ''CCONJ'', ''ADV'',
       ''PRON'', ''AUX'', ''NOUN'', ''PART'', ''VERB'', ''PUNCT'']. pos \<notin> {''PROPN'', ''NUM''}"
    by simp
  show ?thesis
    by (rule validator_paths_diverge[where tagger = example_tagger and t = example_sentence
          and self = "init None", OF w1 w2 w3 w4 w5 w6])
qed

end
